theory Spec2Isabelle
  imports Complex_Main "HOL-Library.Word"
begin

section \<open>RecordToDiskPlugin: a streaming PCM-to-WAV writer\<close>

text \<open>
  The development embeds the class \<^verbatim>\<open>RecordToDiskPlugin\<close> (constructor,
  \<^verbatim>\<open>onAudioData\<close>, \<^verbatim>\<open>cleanup\<close>, \<^verbatim>\<open>writeWavHeaderPlaceholder\<close>,
  \<^verbatim>\<open>updateWavHeaderSizes\<close>) together with the part of the Node.js library it
  calls: \<^verbatim>\<open>Buffer\<close> (alloc, write, writeUInt16LE, writeUInt32LE, from),
  \<^verbatim>\<open>fs.openSync\<close>, \<^verbatim>\<open>fs.writeSync\<close> with an explicit position, and an
  \<^verbatim>\<open>fs.WriteStream\<close> created on the same descriptor.

  Conventions of the model.
  \<^item> A method is a function from the state before the call to a pair: what the
    call threw (\<open>None\<close> when it returned) and the state after it. The state
    is returned in both cases, since a JavaScript object keeps the assignments
    made before an exception.
  \<^item> A JavaScript \<^verbatim>\<open>number\<close> is a rational. All values that reach a file
    are below \<open>2 ^ 32\<close>, where doubles are exact for the products and the
    division by 8 that the code computes; NaN and the infinities are left out.
  \<^item> The instance uses its descriptor in two ways, and the model keeps them
    apart as Node does. \<^verbatim>\<open>fs.writeSync\<close> is always called with a numeric
    position (0, 4 and 40), which is pwrite(2): the descriptor's file offset
    stays where it is. The stream is created without a \<^verbatim>\<open>start\<close> option, so
    it passes no position and each chunk goes to the descriptor's file offset,
    which starts at 0 for a file opened with flag \<^verbatim>\<open>'w'\<close>.
  \<^item> The stream is asynchronous. \<^verbatim>\<open>write()\<close> only queues a chunk: one write
    request at a time is with the host, the chunks that arrive meanwhile wait
    and go out together as the next request. \<^verbatim>\<open>end()\<close> only marks the stream;
    the descriptor is closed later, after the queued writes. What the stream
    does between two calls into the plugin is a \<open>turn\<close> of the event loop:
    the request that is with the host completes. Calls that follow each other
    without a turn in between are calls in the same tick.
  \<^item> \<^verbatim>\<open>write()\<close> on a stream never throws into its caller (Node 14 and later).
    A write after \<^verbatim>\<open>end()\<close> destroys the stream with
    \<^verbatim>\<open>ERR_STREAM_WRITE_AFTER_END\<close>, a write request that the host fails
    destroys it with the host's error, and the stream emits the error as an
    \<^verbatim>\<open>'error'\<close> event. The class registers no listener, so Node raises each
    such event as an uncaught exception of the process, outside every call of
    the plugin; the model records the events in the field \<open>emitted\<close> and goes
    on, as a process with a handler for uncaught exceptions does.
  \<^item> \<^verbatim>\<open>console.log\<close> is not modelled.
\<close>

subsection \<open>Values and errors\<close>

type_synonym byte = "8 word"

type_synonym number = rat

text \<open>
  What a call can throw or a stream can emit: the range check of
  \<^verbatim>\<open>Buffer.writeUInt16LE\<close> and \<^verbatim>\<open>writeUInt32LE\<close>, a write on a closed
  descriptor, a write the host refuses, a write on a stream after its
  \<^verbatim>\<open>end()\<close>, and whatever a forwarding callback throws.
\<close>

datatype error = ERR_OUT_OF_RANGE | EBADF | EIO | ERR_STREAM_WRITE_AFTER_END | Thrown string

definition and_then :: "error + 'a \<Rightarrow> ('a \<Rightarrow> error + 'b) \<Rightarrow> error + 'b" where
  "and_then r f = (case r of Inl e \<Rightarrow> Inl e | Inr x \<Rightarrow> f x)"

subsection \<open>Buffer\<close>

definition Buffer_alloc :: "nat \<Rightarrow> byte \<Rightarrow> byte list" where
  "Buffer_alloc n fill = replicate n fill"

text \<open>
  Copying bytes into a buffer of fixed size: what does not fit is dropped, the
  buffer never grows.
\<close>

definition blit :: "byte list \<Rightarrow> nat \<Rightarrow> byte list \<Rightarrow> byte list" where
  "blit src off buf =
     take off buf @ take (length buf - off) src @ drop (off + length src) buf"

text \<open>\<^verbatim>\<open>buf.write(string, offset)\<close> for the ASCII strings of the header.\<close>

definition Buffer_write :: "string \<Rightarrow> nat \<Rightarrow> byte list \<Rightarrow> byte list" where
  "Buffer_write s off buf = blit (map (\<lambda>c. of_nat (of_char c)) s) off buf"

text \<open>
  The bytes of a non-negative integer, least significant first: Node stores
  \<^verbatim>\<open>value\<close>, then \<^verbatim>\<open>value >>> 8\<close>, and so on.
\<close>

fun le_bytes :: "nat \<Rightarrow> nat \<Rightarrow> byte list" where
  "le_bytes 0 v = []"
| "le_bytes (Suc k) v = of_nat (v mod 256) # le_bytes k (v div 256)"

text \<open>
  \<^verbatim>\<open>writeUInt32LE(value, offset)\<close> and \<^verbatim>\<open>writeUInt16LE(value, offset)\<close>:
  the value is checked against the range first (\<^verbatim>\<open>ERR_OUT_OF_RANGE\<close>), then
  the offset against the buffer; a fraction in range is truncated by the byte
  stores.
\<close>

definition writeUInt32LE :: "number \<Rightarrow> nat \<Rightarrow> byte list \<Rightarrow> error + byte list" where
  "writeUInt32LE v off buf =
     (if v > 4294967295 \<or> v < 0 then Inl ERR_OUT_OF_RANGE
      else if length buf < off + 4 then Inl ERR_OUT_OF_RANGE
      else Inr (blit (le_bytes 4 (nat \<lfloor>v\<rfloor>)) off buf))"

definition writeUInt16LE :: "number \<Rightarrow> nat \<Rightarrow> byte list \<Rightarrow> error + byte list" where
  "writeUInt16LE v off buf =
     (if v > 65535 \<or> v < 0 then Inl ERR_OUT_OF_RANGE
      else if length buf < off + 2 then Inl ERR_OUT_OF_RANGE
      else Inr (blit (le_bytes 2 (nat \<lfloor>v\<rfloor>)) off buf))"

text \<open>
  An \<^verbatim>\<open>Int16Array\<close> is a view of \<open>elems\<close> samples at \<open>byteOffset\<close> of an
  \<^verbatim>\<open>ArrayBuffer\<close>. The plugin reads \<^verbatim>\<open>samples.buffer\<close> only, that is the
  whole backing buffer.
\<close>

record Int16Array =
  buffer :: "byte list"
  byteOffset :: nat
  elems :: nat

definition Buffer_from :: "byte list \<Rightarrow> byte list" where
  "Buffer_from arrayBuffer = arrayBuffer"

subsection \<open>The host: one file and one descriptor\<close>

text \<open>
  The file the constructor opens and the descriptor it gets: the bytes on disk,
  the descriptor's number, whether it is open, its file offset, and whether the
  host currently refuses writes (a full disk, a device error).
\<close>

record host =
  path :: string
  fd :: nat
  fd_open :: bool
  position :: nat
  content :: "byte list"
  failing :: bool

text \<open>
  Bytes stored at an offset of a file: a gap past the end is filled with zeros,
  bytes after the stored ones stay. Storing nothing changes nothing.
\<close>

definition store_at :: "byte list \<Rightarrow> nat \<Rightarrow> byte list \<Rightarrow> byte list" where
  "store_at bs pos old =
     (if bs = [] then old
      else take pos old @ replicate (pos - length old) 0 @ bs @ drop (pos + length bs) old)"

text \<open>
  \<^verbatim>\<open>fs.openSync(path, 'w')\<close>: the file is created or truncated; \<open>d\<close> is the
  descriptor number the host hands out.
\<close>

definition fs_openSync :: "string \<Rightarrow> nat \<Rightarrow> host" where
  "fs_openSync p d =
     \<lparr>path = p, fd = d, fd_open = True, position = 0, content = [], failing = False\<rparr>"

text \<open>
  \<^verbatim>\<open>fs.writeSync(fd, buffer, offset, length, position)\<close> with a numeric
  position is pwrite(2): the bytes go to that position and the descriptor's
  file offset is not moved.
\<close>

definition fs_writeSync ::
    "nat \<Rightarrow> byte list \<Rightarrow> nat \<Rightarrow> nat \<Rightarrow> nat \<Rightarrow> host \<Rightarrow> error + host" where
  "fs_writeSync d buf off len pos h =
     (if \<not> fd_open h \<or> d \<noteq> fd h then Inl EBADF
      else if failing h then Inl EIO
      else Inr (h\<lparr>content := store_at (take len (drop off buf)) pos (content h)\<rparr>))"

text \<open>
  A write without a position is write(2): the bytes go to the descriptor's file
  offset, which moves past them.
\<close>

definition fs_write :: "nat \<Rightarrow> byte list \<Rightarrow> host \<Rightarrow> error + host" where
  "fs_write d buf h =
     (if \<not> fd_open h \<or> d \<noteq> fd h then Inl EBADF
      else if failing h then Inl EIO
      else Inr (h\<lparr>content := store_at buf (position h) (content h),
                  position := position h + length buf\<rparr>))"

definition fs_close :: "nat \<Rightarrow> host \<Rightarrow> host" where
  "fs_close d h = (if d = fd h then h\<lparr>fd_open := False\<rparr> else h)"

subsection \<open>fs.WriteStream\<close>

text \<open>
  A stream is \<open>Writable\<close> until \<^verbatim>\<open>end()\<close> is called, then \<open>Ending\<close> until
  its last queued write has completed, then \<open>Destroyed\<close> (it takes no more
  writes, the close of its descriptor is under way), then \<open>Closed\<close>. An error
  takes it to \<open>Destroyed\<close> from \<open>Writable\<close> or \<open>Ending\<close>. \<open>inflight\<close> is
  the write request that is with the host, \<open>buffered\<close> are the chunks that
  wait behind it, \<open>emitted\<close> are the \<^verbatim>\<open>'error'\<close> events so far.
\<close>

datatype stream_status = Writable | Ending | Destroyed | Closed

record WriteStream =
  stream_fd :: nat
  status :: stream_status
  inflight :: "byte list option"
  buffered :: "byte list list"
  emitted :: "error list"

text \<open>
  \<^verbatim>\<open>fs.createWriteStream('', { fd })\<close>: no \<^verbatim>\<open>start\<close> option, so the stream
  keeps no position of its own and every chunk is written at the descriptor's
  file offset.
\<close>

definition fs_createWriteStream :: "nat \<Rightarrow> WriteStream" where
  "fs_createWriteStream d =
     \<lparr>stream_fd = d, status = Writable, inflight = None, buffered = [], emitted = []\<rparr>"

text \<open>
  \<^verbatim>\<open>stream.write(chunk)\<close> touches no file. On a writable stream the chunk
  becomes the request in flight when there is none, and waits otherwise. On a
  stream that is ending, the write destroys the stream with
  \<^verbatim>\<open>ERR_STREAM_WRITE_AFTER_END\<close>: the chunk and the waiting chunks are
  dropped, the request in flight still completes. A destroyed or closed stream
  drops the chunk silently.
\<close>

definition stream_write :: "byte list \<Rightarrow> WriteStream \<Rightarrow> WriteStream" where
  "stream_write chunk s =
     (case status s of
        Writable \<Rightarrow>
          (case inflight s of
             None \<Rightarrow> s\<lparr>inflight := Some chunk\<rparr>
           | Some c \<Rightarrow> s\<lparr>buffered := buffered s @ [chunk]\<rparr>)
      | Ending \<Rightarrow>
          s\<lparr>status := Destroyed, buffered := [],
            emitted := emitted s @ [ERR_STREAM_WRITE_AFTER_END]\<rparr>
      | Destroyed \<Rightarrow> s
      | Closed \<Rightarrow> s)"

text \<open>\<^verbatim>\<open>stream.end(cb)\<close>: a writable stream starts ending; nothing is closed yet.\<close>

definition stream_end :: "WriteStream \<Rightarrow> WriteStream" where
  "stream_end s = (if status s = Writable then s\<lparr>status := Ending\<rparr> else s)"

text \<open>
  One turn of the event loop for the stream. If a request is in flight, it
  completes: its bytes are written at the descriptor's file offset, the waiting
  chunks become the next request (one \<^verbatim>\<open>writev\<close> of all of them), and an
  ending stream with nothing left is finished and destroyed. If the host fails
  the request, the stream is destroyed with that error and the waiting chunks
  are dropped. If no request is in flight, an ending stream is finished and
  destroyed, and a destroyed stream closes its descriptor.
\<close>

definition stream_turn :: "WriteStream \<Rightarrow> host \<Rightarrow> WriteStream \<times> host" where
  "stream_turn s h =
     (case inflight s of
        Some c \<Rightarrow>
          (case fs_write (stream_fd s) c h of
             Inr h' \<Rightarrow>
               (s\<lparr>status := (if status s = Ending \<and> buffered s = [] then Destroyed
                              else status s),
                  inflight := (if buffered s = [] then None else Some (concat (buffered s))),
                  buffered := []\<rparr>, h')
           | Inl e \<Rightarrow>
               (if status s = Writable \<or> status s = Ending
                then s\<lparr>status := Destroyed, inflight := None, buffered := [],
                       emitted := emitted s @ [e]\<rparr>
                else s\<lparr>inflight := None\<rparr>, h))
      | None \<Rightarrow>
          (case status s of
             Writable \<Rightarrow> (s, h)
           | Ending \<Rightarrow> (s\<lparr>status := Destroyed\<rparr>, h)
           | Destroyed \<Rightarrow> (s\<lparr>status := Closed\<rparr>, fs_close (stream_fd s) h)
           | Closed \<Rightarrow> (s, h)))"

subsection \<open>Frames\<close>

text \<open>
  Modelled from the spec: the declaration of \<^verbatim>\<open>AudioDataWithUser\<close> (imported
  from \<^verbatim>\<open>../types\<close>) is not among the sources. The fields are those that
  \<^verbatim>\<open>onAudioData\<close> destructures, names in its comment or reads
  (\<^verbatim>\<open>data.userId\<close>); the spec gives the three format fields as unsigned
  integers, TypeScript has them as \<^verbatim>\<open>number\<close>, and the model takes numbers
  and leaves the range checks to \<^verbatim>\<open>Buffer\<close>, as the code does.
\<close>

record AudioDataWithUser =
  bitsPerSample :: number
  sampleRate :: number
  channelCount :: number
  numberOfFrames :: number
  samples :: Int16Array
  userId :: string

text \<open>
  \<^verbatim>\<open>type AudioCallback = (data: Int16Array, userId?: string) => void\<close>: the
  model keeps of a callback whether it returns (\<open>None\<close>) or throws.
\<close>

type_synonym AudioCallback = "Int16Array \<Rightarrow> string \<Rightarrow> error option"

subsection \<open>The class\<close>

text \<open>
  The fields of \<^verbatim>\<open>RecordToDiskPlugin\<close> in the order of the source, and with
  them the host's side of the descriptor the instance owns.
\<close>

record RecordToDiskPlugin =
  fileDescriptor :: nat
  outStream :: WriteStream
  onAudioCallback :: "AudioCallback option"
  headerWritten :: bool
  totalDataBytes :: nat
  wavSampleRate :: number
  wavBitsPerSample :: number
  wavNumChannels :: number
  host :: host

type_synonym writer = RecordToDiskPlugin

text \<open>
  The constructor; \<open>d\<close> is the descriptor number that \<^verbatim>\<open>fs.openSync\<close>
  returns. A failing \<^verbatim>\<open>openSync\<close> constructs nothing and is left out.
\<close>

definition constructor :: "string \<Rightarrow> nat \<Rightarrow> AudioCallback option \<Rightarrow> writer" where
  "constructor outputPath d cb =
     \<lparr>fileDescriptor = d,
      outStream = fs_createWriteStream d,
      onAudioCallback = cb,
      headerWritten = False,
      totalDataBytes = 0,
      wavSampleRate = 0,
      wavBitsPerSample = 0,
      wavNumChannels = 0,
      host = fs_openSync outputPath d\<rparr>"

text \<open>
  The 44 bytes that \<^verbatim>\<open>writeWavHeaderPlaceholder\<close> builds, statement by
  statement; any of the integer writes can throw.
\<close>

definition wavHeader :: "writer \<Rightarrow> error + byte list" where
  "wavHeader this =
     (let header = Buffer_alloc 44 0;
          header = Buffer_write ''RIFF'' 0 header;
          header = Buffer_write ''WAVE'' 8 header;
          header = Buffer_write ''fmt '' 12 header
      in and_then (writeUInt32LE 16 16 header) (\<lambda>header.
         and_then (writeUInt16LE 1 20 header) (\<lambda>header.
         and_then (writeUInt16LE (wavNumChannels this) 22 header) (\<lambda>header.
         and_then (writeUInt32LE (wavSampleRate this) 24 header) (\<lambda>header.
         let byteRate = wavSampleRate this * wavNumChannels this * (wavBitsPerSample this / 8) in
         and_then (writeUInt32LE byteRate 28 header) (\<lambda>header.
         let blockAlign = wavNumChannels this * (wavBitsPerSample this / 8) in
         and_then (writeUInt16LE blockAlign 32 header) (\<lambda>header.
         and_then (writeUInt16LE (wavBitsPerSample this) 34 header) (\<lambda>header.
         Inr (Buffer_write ''data'' 36 header)))))))))"

definition writeWavHeaderPlaceholder :: "writer \<Rightarrow> error option \<times> writer" where
  "writeWavHeaderPlaceholder this =
     (case wavHeader this of
        Inl e \<Rightarrow> (Some e, this)
      | Inr header \<Rightarrow>
          (case fs_writeSync (fileDescriptor this) header 0 44 0 (host this) of
             Inl e \<Rightarrow> (Some e, this)
           | Inr h \<Rightarrow> (None, this\<lparr>host := h\<rparr>)))"

text \<open>
  \<^verbatim>\<open>updateWavHeaderSizes\<close>: two positioned writes of four bytes, at offsets 4
  and 40. The second is not reached when the first throws.
\<close>

definition updateWavHeaderSizes :: "writer \<Rightarrow> error option \<times> writer" where
  "updateWavHeaderSizes this =
     (let fileSizeMinus8 = 36 + of_nat (totalDataBytes this);
          dataSize = of_nat (totalDataBytes this);
          buf = Buffer_alloc 4 0
      in case writeUInt32LE fileSizeMinus8 0 buf of
           Inl e \<Rightarrow> (Some e, this)
         | Inr buf \<Rightarrow>
             (case fs_writeSync (fileDescriptor this) buf 0 4 4 (host this) of
                Inl e \<Rightarrow> (Some e, this)
              | Inr h \<Rightarrow>
                  (case writeUInt32LE dataSize 0 buf of
                     Inl e \<Rightarrow> (Some e, this\<lparr>host := h\<rparr>)
                   | Inr buf \<Rightarrow>
                       (case fs_writeSync (fileDescriptor this) buf 0 4 40 h of
                          Inl e \<Rightarrow> (Some e, this\<lparr>host := h\<rparr>)
                        | Inr h' \<Rightarrow> (None, this\<lparr>host := h'\<rparr>)))))"

text \<open>
  \<^verbatim>\<open>onAudioData\<close>. The first block runs while \<open>headerWritten\<close> is false: the
  three format fields are assigned, then the header is written, then the flag
  is set; an exception of the header write leaves the method after the
  assignments and before the flag. Then the payload is handed to the stream,
  the counter grows by the payload's length, and the callback, if there is one,
  is called last and outside any \<^verbatim>\<open>try\<close>.
\<close>

definition onAudioData :: "AudioDataWithUser \<Rightarrow> writer \<Rightarrow> error option \<times> writer" where
  "onAudioData data this =
     (case (if \<not> headerWritten this then
              (case writeWavHeaderPlaceholder
                      (this\<lparr>wavSampleRate := sampleRate data,
                            wavBitsPerSample := bitsPerSample data,
                            wavNumChannels := channelCount data\<rparr>) of
                 (Some e, t) \<Rightarrow> (Some e, t)
               | (None, t) \<Rightarrow> (None, t\<lparr>headerWritten := True\<rparr>))
            else (None, this)) of
        (Some e, t) \<Rightarrow> (Some e, t)
      | (None, t) \<Rightarrow>
          (let pcmBuf = Buffer_from (buffer (samples data));
               t = t\<lparr>outStream := stream_write pcmBuf (outStream t),
                      totalDataBytes := totalDataBytes t + length pcmBuf\<rparr>
           in case onAudioCallback t of
                None \<Rightarrow> (None, t)
              | Some cb \<Rightarrow> (cb (samples data) (userId data), t)))"

text \<open>
  \<^verbatim>\<open>cleanup\<close>: the sizes are written back only when a header was written and
  at least one payload byte was counted; an exception of the write-back leaves
  the method before \<^verbatim>\<open>outStream.end\<close>.
\<close>

definition cleanup :: "writer \<Rightarrow> error option \<times> writer" where
  "cleanup this =
     (case (if headerWritten this \<and> totalDataBytes this > 0
            then updateWavHeaderSizes this else (None, this)) of
        (Some e, t) \<Rightarrow> (Some e, t)
      | (None, t) \<Rightarrow> (None, t\<lparr>outStream := stream_end (outStream t)\<rparr>))"

subsection \<open>Runs and reading the file\<close>

text \<open>
  A turn of the event loop for an instance, and three of them: three turns
  bring every stream to rest (the request in flight, the request made of the
  waiting chunks, the close).
\<close>

definition turn :: "writer \<Rightarrow> writer" where
  "turn w =
     w\<lparr>outStream := fst (stream_turn (outStream w) (host w)),
       host := snd (stream_turn (outStream w) (host w))\<rparr>"

definition settle :: "writer \<Rightarrow> writer" where
  "settle w = turn (turn (turn w))"

text \<open>
  What happens to an instance between construction and the end of a recording:
  calls of its two public methods, turns of the event loop, and changes of the
  host's willingness to write. A caller that catches an exception can go on
  calling, so a run continues after a call that threw.
\<close>

datatype event = Ingest AudioDataWithUser | Finalize | Tick | HostFailing bool

fun step :: "event \<Rightarrow> writer \<Rightarrow> error option \<times> writer" where
  "step (Ingest data) w = onAudioData data w"
| "step Finalize w = cleanup w"
| "step Tick w = (None, turn w)"
| "step (HostFailing b) w = (None, w\<lparr>host := (host w)\<lparr>failing := b\<rparr>\<rparr>)"

fun run :: "event list \<Rightarrow> writer \<Rightarrow> writer" where
  "run [] w = w"
| "run (e # es) w = run es (snd (step e w))"

text \<open>
  The frames of a list of events, and the lists that hold nothing but ingest
  calls and turns of the event loop.
\<close>

fun frames :: "event list \<Rightarrow> AudioDataWithUser list" where
  "frames [] = []"
| "frames (Ingest data # es) = data # frames es"
| "frames (e # es) = frames es"

fun quiet :: "event list \<Rightarrow> bool" where
  "quiet [] = True"
| "quiet (Ingest data # es) = quiet es"
| "quiet (Tick # es) = quiet es"
| "quiet (e # es) = False"

text \<open>The value of a little-endian field, and the bytes of a field of a file.\<close>

fun le_value :: "byte list \<Rightarrow> nat" where
  "le_value [] = 0"
| "le_value (b # bs) = unat b + 256 * le_value bs"

definition field :: "nat \<Rightarrow> nat \<Rightarrow> byte list \<Rightarrow> byte list" where
  "field off len bs = take len (drop off bs)"

definition ascii :: "string \<Rightarrow> byte list" where
  "ascii s = map (\<lambda>c. of_nat (of_char c)) s"

text \<open>
  The ranges that the seven integer writes of the header check, in the order of
  the writes: exactly when they hold, \<open>wavHeader\<close> returns a header.
\<close>

definition header_fits :: "writer \<Rightarrow> bool" where
  "header_fits this =
     (0 \<le> wavNumChannels this \<and> wavNumChannels this \<le> 65535 \<and>
      0 \<le> wavSampleRate this \<and> wavSampleRate this \<le> 4294967295 \<and>
      0 \<le> wavSampleRate this * wavNumChannels this * (wavBitsPerSample this / 8) \<and>
      wavSampleRate this * wavNumChannels this * (wavBitsPerSample this / 8) \<le> 4294967295 \<and>
      0 \<le> wavNumChannels this * (wavBitsPerSample this / 8) \<and>
      wavNumChannels this * (wavBitsPerSample this / 8) \<le> 65535 \<and>
      0 \<le> wavBitsPerSample this \<and> wavBitsPerSample this \<le> 65535)"

text \<open>
  The bytes a frame contributes (\<^verbatim>\<open>pcmBuf\<close> in \<^verbatim>\<open>onAudioData\<close>), the bytes
  a stream still has to write, and the state of an instance that has written
  the header \<open>header\<close>, has since been given the payload bytes \<open>ps\<close>, and
  whose stream and descriptor are usable. The payload bytes that have been
  written are those before the descriptor's file offset, and they stand at the
  start of the file: the offset was 0 when the first chunk went out, because
  the header was written by a positioned write.
\<close>

definition payload :: "AudioDataWithUser \<Rightarrow> byte list" where
  "payload data = Buffer_from (buffer (samples data))"

definition queued :: "WriteStream \<Rightarrow> byte list" where
  "queued s = (case inflight s of None \<Rightarrow> [] | Some c \<Rightarrow> c) @ concat (buffered s)"

definition recording :: "byte list \<Rightarrow> byte list \<Rightarrow> writer \<Rightarrow> bool" where
  "recording header ps w =
     (headerWritten w \<and> totalDataBytes w = length ps \<and>
      status (outStream w) = Writable \<and> stream_fd (outStream w) = fd (host w) \<and>
      fileDescriptor w = fd (host w) \<and> fd_open (host w) \<and> \<not> failing (host w) \<and>
      (inflight (outStream w) = None \<longrightarrow> buffered (outStream w) = []) \<and>
      position (host w) \<le> length ps \<and>
      queued (outStream w) = drop (position (host w)) ps \<and>
      content (host w) = take (position (host w)) ps @ drop (position (host w)) header)"

text \<open>
  A frame as the capture side delivers it, for the concrete inputs below: an
  \<^verbatim>\<open>Int16Array\<close> that covers its whole buffer \<open>bs\<close>.
\<close>

definition frame_of :: "number \<Rightarrow> number \<Rightarrow> number \<Rightarrow> byte list \<Rightarrow> AudioDataWithUser" where
  "frame_of sr bits ch bs =
     \<lparr>bitsPerSample = bits, sampleRate = sr, channelCount = ch,
      numberOfFrames = of_nat (length bs div 2) / ch,
      samples = \<lparr>buffer = bs, byteOffset = 0, elems = length bs div 2\<rparr>,
      userId = ''speaker''\<rparr>"

text \<open>
  What holds of an instance at every moment of a run: stream, instance and host
  speak of the same descriptor, the descriptor is closed exactly when the
  stream is, chunks wait only behind a request in flight, a closed stream has
  none, a destroyed stream has dropped its buffer, and until a header has been written the file is empty, nothing has been
  counted and nothing is queued.
\<close>

definition consistent :: "writer \<Rightarrow> bool" where
  "consistent w =
     (stream_fd (outStream w) = fd (host w) \<and> fileDescriptor w = fd (host w) \<and>
      (status (outStream w) = Closed) = (\<not> fd_open (host w)) \<and>
      (inflight (outStream w) = None \<longrightarrow> buffered (outStream w) = []) \<and>
      (status (outStream w) = Closed \<longrightarrow> inflight (outStream w) = None) \<and>
      (status (outStream w) = Destroyed \<longrightarrow> buffered (outStream w) = []) \<and>
      (headerWritten w \<or>
       content (host w) = [] \<and> totalDataBytes w = 0 \<and> position (host w) = 0 \<and>
       inflight (outStream w) = None))"

text \<open>A forwarding callback that throws on every call, as a concrete input.\<close>

definition throwing_callback :: AudioCallback where
  "throwing_callback data uid = Some (Thrown ''forwarding failed'')"

section \<open>Lemmas\<close>

subsection \<open>Buffers and little-endian fields\<close>

lemma and_then_Inr: "and_then (Inr x) f = f x"
  by (simp add: and_then_def)

lemma and_then_Inl: "and_then (Inl e) f = Inl e"
  by (simp add: and_then_def)

lemma and_then_weak_cong: "r = r' \<Longrightarrow> and_then r f = and_then r' f"
  by simp

lemma le_bytes_2: "le_bytes 2 v = [of_nat (v mod 256), of_nat (v div 256 mod 256)]"
  by (simp add: numeral_2_eq_2)

lemma le_bytes_4:
  "le_bytes 4 v = [of_nat (v mod 256), of_nat (v div 256 mod 256),
     of_nat (v div 256 div 256 mod 256), of_nat (v div 256 div 256 div 256 mod 256)]"
proof -
  have "(4::nat) = Suc (Suc (Suc (Suc 0)))" by simp
  then show ?thesis by (simp only: le_bytes.simps)
qed

lemma replicate_4: "replicate 4 x = [x, x, x, x]"
  by (simp add: numeral_eq_Suc)

lemma length_le_bytes: "length (le_bytes k v) = k"
  by (induction k arbitrary: v) simp_all

lemma le_value_le_bytes: "v < 256 ^ k \<Longrightarrow> le_value (le_bytes k v) = v"
proof (induction k arbitrary: v)
  case 0
  then show ?case by simp
next
  case (Suc k)
  have "v div 256 < 256 ^ k"
    using Suc.prems by (simp add: less_mult_imp_div_less mult.commute)
  then have "le_value (le_bytes k (v div 256)) = v div 256"
    by (rule Suc.IH)
  moreover have "unat (of_nat (v mod 256) :: byte) = v mod 256"
    by (simp add: unat_of_nat)
  ultimately show ?case by simp
qed

lemma writeUInt32LE_ok:
  "0 \<le> v \<Longrightarrow> v \<le> 4294967295 \<Longrightarrow> off + 4 \<le> length buf \<Longrightarrow>
   writeUInt32LE v off buf = Inr (blit (le_bytes 4 (nat \<lfloor>v\<rfloor>)) off buf)"
  by (simp add: writeUInt32LE_def)

lemma writeUInt16LE_ok:
  "0 \<le> v \<Longrightarrow> v \<le> 65535 \<Longrightarrow> off + 2 \<le> length buf \<Longrightarrow>
   writeUInt16LE v off buf = Inr (blit (le_bytes 2 (nat \<lfloor>v\<rfloor>)) off buf)"
  by (simp add: writeUInt16LE_def)

lemma writeUInt32LE_bad:
  "v < 0 \<or> 4294967295 < v \<Longrightarrow> writeUInt32LE v off buf = Inl ERR_OUT_OF_RANGE"
  by (auto simp add: writeUInt32LE_def)

lemma writeUInt16LE_bad:
  "v < 0 \<or> 65535 < v \<Longrightarrow> writeUInt16LE v off buf = Inl ERR_OUT_OF_RANGE"
  by (auto simp add: writeUInt16LE_def)

subsection \<open>The header\<close>

lemma wavHeader_chain:
  "wavHeader this =
     (let header = Buffer_alloc 44 0;
          header = Buffer_write ''RIFF'' 0 header;
          header = Buffer_write ''WAVE'' 8 header;
          header = Buffer_write ''fmt '' 12 header
      in and_then (writeUInt32LE 16 16 header) (\<lambda>header.
         and_then (writeUInt16LE 1 20 header) (\<lambda>header.
         and_then (writeUInt16LE (wavNumChannels this) 22 header) (\<lambda>header.
         and_then (writeUInt32LE (wavSampleRate this) 24 header) (\<lambda>header.
         and_then (writeUInt32LE
            (wavSampleRate this * wavNumChannels this * (wavBitsPerSample this / 8)) 28 header)
           (\<lambda>header.
         and_then (writeUInt16LE (wavNumChannels this * (wavBitsPerSample this / 8)) 32 header)
           (\<lambda>header.
         and_then (writeUInt16LE (wavBitsPerSample this) 34 header) (\<lambda>header.
         Inr (Buffer_write ''data'' 36 header)))))))))"
  unfolding wavHeader_def Let_def ..

lemmas header_eval =
  Buffer_alloc_def Buffer_write_def blit_def writeUInt32LE_ok writeUInt16LE_ok
  writeUInt32LE_bad writeUInt16LE_bad and_then_Inl and_then_Inr le_bytes_2 le_bytes_4

lemma wavHeader_abstract_ok:
  assumes "0 \<le> ch" "ch \<le> 65535" "0 \<le> sr" "sr \<le> 4294967295" "0 \<le> br" "br \<le> 4294967295"
    "0 \<le> ba" "ba \<le> 65535" "0 \<le> bi" "bi \<le> 65535"
  shows "(let header = Buffer_alloc 44 0;
          header = Buffer_write ''RIFF'' 0 header;
          header = Buffer_write ''WAVE'' 8 header;
          header = Buffer_write ''fmt '' 12 header
      in and_then (writeUInt32LE 16 16 header) (\<lambda>header.
         and_then (writeUInt16LE 1 20 header) (\<lambda>header.
         and_then (writeUInt16LE ch 22 header) (\<lambda>header.
         and_then (writeUInt32LE sr 24 header) (\<lambda>header.
         and_then (writeUInt32LE br 28 header) (\<lambda>header.
         and_then (writeUInt16LE ba 32 header) (\<lambda>header.
         and_then (writeUInt16LE bi 34 header) (\<lambda>header.
         Inr (Buffer_write ''data'' 36 header)))))))))
     = Inr (ascii ''RIFF'' @ [0, 0, 0, 0] @ ascii ''WAVE'' @ ascii ''fmt '' @
        le_bytes 4 16 @ le_bytes 2 1 @ le_bytes 2 (nat \<lfloor>ch\<rfloor>) @ le_bytes 4 (nat \<lfloor>sr\<rfloor>) @
        le_bytes 4 (nat \<lfloor>br\<rfloor>) @ le_bytes 2 (nat \<lfloor>ba\<rfloor>) @ le_bytes 2 (nat \<lfloor>bi\<rfloor>) @
        ascii ''data'' @ [0, 0, 0, 0])"
  unfolding Let_def
  by (simp add: assms header_eval ascii_def replicate_4 cong: and_then_weak_cong)

lemma wavHeader_abstract_bad:
  assumes "\<not> (0 \<le> ch \<and> ch \<le> 65535 \<and> 0 \<le> sr \<and> sr \<le> 4294967295 \<and> 0 \<le> br \<and>
    br \<le> 4294967295 \<and> 0 \<le> ba \<and> ba \<le> 65535 \<and> 0 \<le> bi \<and> bi \<le> 65535)"
  shows "(let header = Buffer_alloc 44 0;
          header = Buffer_write ''RIFF'' 0 header;
          header = Buffer_write ''WAVE'' 8 header;
          header = Buffer_write ''fmt '' 12 header
      in and_then (writeUInt32LE 16 16 header) (\<lambda>header.
         and_then (writeUInt16LE 1 20 header) (\<lambda>header.
         and_then (writeUInt16LE ch 22 header) (\<lambda>header.
         and_then (writeUInt32LE sr 24 header) (\<lambda>header.
         and_then (writeUInt32LE br 28 header) (\<lambda>header.
         and_then (writeUInt16LE ba 32 header) (\<lambda>header.
         and_then (writeUInt16LE bi 34 header) (\<lambda>header.
         Inr (Buffer_write ''data'' 36 header)))))))))
     = Inl ERR_OUT_OF_RANGE"
proof (cases "0 \<le> ch \<and> ch \<le> 65535")
  case False
  then have "ch < 0 \<or> 65535 < ch" by auto
  then show ?thesis unfolding Let_def by (simp add: header_eval cong: and_then_weak_cong)
next
  case c1: True
  show ?thesis
  proof (cases "0 \<le> sr \<and> sr \<le> 4294967295")
    case False
    then have "sr < 0 \<or> 4294967295 < sr" by auto
    then show ?thesis
      unfolding Let_def using c1 by (simp add: header_eval cong: and_then_weak_cong)
  next
    case c2: True
    show ?thesis
    proof (cases "0 \<le> br \<and> br \<le> 4294967295")
      case False
      then have "br < 0 \<or> 4294967295 < br" by auto
      then show ?thesis
        unfolding Let_def using c1 c2 by (simp add: header_eval cong: and_then_weak_cong)
    next
      case c3: True
      show ?thesis
      proof (cases "0 \<le> ba \<and> ba \<le> 65535")
        case False
        then have "ba < 0 \<or> 65535 < ba" by auto
        then show ?thesis
          unfolding Let_def using c1 c2 c3 by (simp add: header_eval cong: and_then_weak_cong)
      next
        case c4: True
        with assms c1 c2 c3 have "bi < 0 \<or> 65535 < bi" by auto
        then show ?thesis
          unfolding Let_def using c1 c2 c3 c4
          by (simp add: header_eval cong: and_then_weak_cong)
      qed
    qed
  qed
qed

lemma wavHeader_fits:
  "header_fits this \<Longrightarrow>
   wavHeader this =
     Inr (ascii ''RIFF'' @ [0, 0, 0, 0] @ ascii ''WAVE'' @ ascii ''fmt '' @
        le_bytes 4 16 @ le_bytes 2 1 @ le_bytes 2 (nat \<lfloor>wavNumChannels this\<rfloor>) @
        le_bytes 4 (nat \<lfloor>wavSampleRate this\<rfloor>) @
        le_bytes 4 (nat \<lfloor>wavSampleRate this * wavNumChannels this * (wavBitsPerSample this / 8)\<rfloor>) @
        le_bytes 2 (nat \<lfloor>wavNumChannels this * (wavBitsPerSample this / 8)\<rfloor>) @
        le_bytes 2 (nat \<lfloor>wavBitsPerSample this\<rfloor>) @ ascii ''data'' @ [0, 0, 0, 0])"
  unfolding wavHeader_chain header_fits_def
  by (rule wavHeader_abstract_ok) simp_all

lemma wavHeader_not_fits: "\<not> header_fits this \<Longrightarrow> wavHeader this = Inl ERR_OUT_OF_RANGE"
  unfolding wavHeader_chain header_fits_def
  by (rule wavHeader_abstract_bad)

lemma wavHeader_Inr_fits: "wavHeader this = Inr header \<Longrightarrow> header_fits this"
  using wavHeader_not_fits [of this] by auto

lemma wavHeader_Inl: "wavHeader this = Inl e \<Longrightarrow> e = ERR_OUT_OF_RANGE"
  using wavHeader_not_fits [of this] wavHeader_fits [of this] by (cases "header_fits this") auto

lemma wavHeader_length: "wavHeader this = Inr header \<Longrightarrow> length header = 44"
  using wavHeader_fits [OF wavHeader_Inr_fits, of this header]
  by (auto simp add: length_le_bytes ascii_def)

subsection \<open>Writing the header\<close>

lemma store_at_empty: "bs \<noteq> [] \<Longrightarrow> store_at bs 0 [] = bs"
  by (simp add: store_at_def)

lemma writeWavHeaderPlaceholder_ok:
  assumes "wavHeader this = Inr header" "fd_open (host this)" "fileDescriptor this = fd (host this)"
    "\<not> failing (host this)"
  shows "writeWavHeaderPlaceholder this =
    (None, this\<lparr>host := (host this)\<lparr>content := store_at header 0 (content (host this))\<rparr>\<rparr>)"
  using assms wavHeader_length [OF assms(1)]
  by (simp add: writeWavHeaderPlaceholder_def fs_writeSync_def)

lemma writeWavHeaderPlaceholder_None:
  assumes "writeWavHeaderPlaceholder this = (None, t)"
  shows "\<exists>header. wavHeader this = Inr header \<and>
    t = this\<lparr>host := (host this)\<lparr>content := store_at header 0 (content (host this))\<rparr>\<rparr> \<and>
    fd_open (host this) \<and> fileDescriptor this = fd (host this) \<and> \<not> failing (host this)"
proof (cases "wavHeader this")
  case (Inl e)
  with assms show ?thesis by (simp add: writeWavHeaderPlaceholder_def)
next
  case (Inr header)
  with assms wavHeader_length [OF Inr] show ?thesis
    by (auto simp add: writeWavHeaderPlaceholder_def fs_writeSync_def split: if_splits)
qed

lemma header_fields:
  fixes ch sr br ba bi :: nat
  defines "hdr \<equiv> ascii ''RIFF'' @ [0, 0, 0, 0] @ ascii ''WAVE'' @ ascii ''fmt '' @
        le_bytes 4 16 @ le_bytes 2 1 @ le_bytes 2 ch @ le_bytes 4 sr @
        le_bytes 4 br @ le_bytes 2 ba @ le_bytes 2 bi @ ascii ''data'' @ [0, 0, 0, 0]"
  shows "field 0 4 hdr = ascii ''RIFF''" "field 4 4 hdr = [0, 0, 0, 0]"
    "field 8 4 hdr = ascii ''WAVE''" "field 12 4 hdr = ascii ''fmt ''"
    "field 16 4 hdr = le_bytes 4 16" "field 20 2 hdr = le_bytes 2 1"
    "field 22 2 hdr = le_bytes 2 ch" "field 24 4 hdr = le_bytes 4 sr"
    "field 28 4 hdr = le_bytes 4 br" "field 32 2 hdr = le_bytes 2 ba"
    "field 34 2 hdr = le_bytes 2 bi" "field 36 4 hdr = ascii ''data''"
    "field 40 4 hdr = [0, 0, 0, 0]" "length hdr = 44" "hdr \<noteq> []"
  unfolding hdr_def field_def ascii_def le_bytes_2 le_bytes_4 by simp_all

lemma nat_floor_less: "0 \<le> (v::rat) \<Longrightarrow> v \<le> of_nat n \<Longrightarrow> nat \<lfloor>v\<rfloor> < Suc n"
proof -
  assume "0 \<le> v" "v \<le> of_nat n"
  then have "\<lfloor>v\<rfloor> \<le> int n" by (simp add: floor_le_iff) 
  then show ?thesis by linarith
qed

lemma fits_bounds:
  assumes "header_fits this"
  shows "nat \<lfloor>wavNumChannels this\<rfloor> < 256 ^ 2" "nat \<lfloor>wavSampleRate this\<rfloor> < 256 ^ 4"
    "nat \<lfloor>wavSampleRate this * wavNumChannels this * (wavBitsPerSample this / 8)\<rfloor> < 256 ^ 4"
    "nat \<lfloor>wavNumChannels this * (wavBitsPerSample this / 8)\<rfloor> < 256 ^ 2"
    "nat \<lfloor>wavBitsPerSample this\<rfloor> < 256 ^ 2"
  using assms nat_floor_less [of "wavNumChannels this" 65535]
    nat_floor_less [of "wavSampleRate this" 4294967295]
    nat_floor_less [of "wavSampleRate this * wavNumChannels this * (wavBitsPerSample this / 8)" 4294967295]
    nat_floor_less [of "wavNumChannels this * (wavBitsPerSample this / 8)" 65535]
    nat_floor_less [of "wavBitsPerSample this" 65535]
  unfolding header_fits_def by simp_all

text \<open>
  Claim C6. When \<^verbatim>\<open>writeWavHeaderPlaceholder\<close> runs for the first frame of a
  fresh writer and returns, the file holds 44 bytes with the documented layout:
  the four tags at offsets 0, 8, 12 and 36, zero placeholders at 4 and 40, and
  the integer fields little-endian at their offsets, with
  ByteRate = \<open>sampleRate * channelCount * (bitsPerSample / 8)\<close> at 28 and
  BlockAlign = \<open>channelCount * (bitsPerSample / 8)\<close> at 32 (a fraction is
  truncated). The witness is the format 48000 Hz, 16 bits, 2 channels of the
  claim: ByteRate 192000 and BlockAlign 4.
\<close>

theorem header_layout:
  assumes "writeWavHeaderPlaceholder
             ((constructor p d cb)\<lparr>wavSampleRate := sr, wavBitsPerSample := bits,
                                   wavNumChannels := ch\<rparr>) = (None, t)"
  shows "length (content (host t)) = 44 \<and>
         field 0 4 (content (host t)) = ascii ''RIFF'' \<and>
         field 4 4 (content (host t)) = [0, 0, 0, 0] \<and>
         field 8 4 (content (host t)) = ascii ''WAVE'' \<and>
         field 12 4 (content (host t)) = ascii ''fmt '' \<and>
         le_value (field 16 4 (content (host t))) = 16 \<and>
         le_value (field 20 2 (content (host t))) = 1 \<and>
         le_value (field 22 2 (content (host t))) = nat \<lfloor>ch\<rfloor> \<and>
         le_value (field 24 4 (content (host t))) = nat \<lfloor>sr\<rfloor> \<and>
         le_value (field 28 4 (content (host t))) = nat \<lfloor>sr * ch * (bits / 8)\<rfloor> \<and>
         le_value (field 32 2 (content (host t))) = nat \<lfloor>ch * (bits / 8)\<rfloor> \<and>
         le_value (field 34 2 (content (host t))) = nat \<lfloor>bits\<rfloor> \<and>
         field 36 4 (content (host t)) = ascii ''data'' \<and>
         field 40 4 (content (host t)) = [0, 0, 0, 0]"
proof -
  let ?w = "(constructor p d cb)\<lparr>wavSampleRate := sr, wavBitsPerSample := bits,
                                   wavNumChannels := ch\<rparr>"
  from writeWavHeaderPlaceholder_None [OF assms] obtain header where
    h: "wavHeader ?w = Inr header" and
    t: "t = ?w\<lparr>host := (host ?w)\<lparr>content := store_at header 0 (content (host ?w))\<rparr>\<rparr>"
    by blast
  have fits: "header_fits ?w" by (rule wavHeader_Inr_fits [OF h])
  have len: "length header = 44" by (rule wavHeader_length [OF h])
  then have "header \<noteq> []" by auto
  then have c: "content (host t) = header"
    unfolding t by (simp add: constructor_def fs_openSync_def store_at_empty)
  have hdr: "header = ascii ''RIFF'' @ [0, 0, 0, 0] @ ascii ''WAVE'' @ ascii ''fmt '' @
        le_bytes 4 16 @ le_bytes 2 1 @ le_bytes 2 (nat \<lfloor>ch\<rfloor>) @ le_bytes 4 (nat \<lfloor>sr\<rfloor>) @
        le_bytes 4 (nat \<lfloor>sr * ch * (bits / 8)\<rfloor>) @ le_bytes 2 (nat \<lfloor>ch * (bits / 8)\<rfloor>) @
        le_bytes 2 (nat \<lfloor>bits\<rfloor>) @ ascii ''data'' @ [0, 0, 0, 0]"
    using wavHeader_fits [OF fits] h by simp
  have b: "nat \<lfloor>ch\<rfloor> < 256 ^ 2" "nat \<lfloor>sr\<rfloor> < 256 ^ 4" "nat \<lfloor>sr * ch * (bits / 8)\<rfloor> < 256 ^ 4"
    "nat \<lfloor>ch * (bits / 8)\<rfloor> < 256 ^ 2" "nat \<lfloor>bits\<rfloor> < 256 ^ 2"
    using fits_bounds [OF fits] by simp_all
  have k: "(16::nat) < 256 ^ 4" "(1::nat) < 256 ^ 2" by simp_all
  show ?thesis
    unfolding c
    by (simp only: hdr header_fields le_value_le_bytes [OF b(1)] le_value_le_bytes [OF b(2)]
        le_value_le_bytes [OF b(3)] le_value_le_bytes [OF b(4)] le_value_le_bytes [OF b(5)]
        le_value_le_bytes [OF k(1)] le_value_le_bytes [OF k(2)] simp_thms)
qed

theorem header_layout_witness:
  "le_value (field 28 4 (content (host (snd (writeWavHeaderPlaceholder
      ((constructor ''/tmp/speaker_audio.wav'' 3 None)\<lparr>wavSampleRate := 48000,
          wavBitsPerSample := 16, wavNumChannels := 2\<rparr>)))))) = 192000 \<and>
   le_value (field 32 2 (content (host (snd (writeWavHeaderPlaceholder
      ((constructor ''/tmp/speaker_audio.wav'' 3 None)\<lparr>wavSampleRate := 48000,
          wavBitsPerSample := 16, wavNumChannels := 2\<rparr>)))))) = 4"
proof -
  let ?w = "(constructor ''/tmp/speaker_audio.wav'' 3 None)\<lparr>wavSampleRate := 48000,
          wavBitsPerSample := 16, wavNumChannels := 2\<rparr>"
  have "header_fits ?w" by (simp add: header_fits_def)
  from wavHeader_fits [OF this] obtain header where h: "wavHeader ?w = Inr header" by blast
  have "fst (writeWavHeaderPlaceholder ?w) = None"
    using writeWavHeaderPlaceholder_ok [OF h] by (simp add: constructor_def fs_openSync_def)
  then have "writeWavHeaderPlaceholder ?w = (None, snd (writeWavHeaderPlaceholder ?w))"
    by (simp add: prod_eq_iff)
  from header_layout [OF this] show ?thesis by simp
qed

subsection \<open>Bytes stored in a file\<close>

lemma length_store_at:
  "length (store_at bs pos old) = (if bs = [] then length old else max (length old) (pos + length bs))"
  by (auto simp add: store_at_def)

lemma field_store_at_same:
  "pos \<le> length old \<Longrightarrow> field pos (length bs) (store_at bs pos old) = bs"
  by (simp add: store_at_def field_def)

lemma field_store_at_before:
  "off + n \<le> pos \<Longrightarrow> off + n \<le> length old \<Longrightarrow>
   field off n (store_at bs pos old) = field off n old"
  by (simp add: store_at_def field_def drop_take min_def)

lemma store_at_append:
  "store_at bs (length ps) (ps @ drop (length ps) header) =
   (ps @ bs) @ drop (length (ps @ bs)) header"
  by (simp add: store_at_def add.commute)

subsection \<open>Ingesting\<close>

lemma onAudioData_after_header:
  assumes "headerWritten w"
  shows "snd (onAudioData f w) =
      w\<lparr>outStream := stream_write (payload f) (outStream w),
        totalDataBytes := totalDataBytes w + length (payload f)\<rparr>"
    and "fst (onAudioData f w) =
      (case onAudioCallback w of None \<Rightarrow> None | Some cb \<Rightarrow> cb (samples f) (userId f))"
  using assms
  by (simp_all add: onAudioData_def payload_def Let_def split: option.splits)

lemma store_at_next:
  assumes "pos \<le> length ps" "c = take (length c) (drop pos ps)"
  shows "store_at c pos (take pos ps @ drop pos header) =
         take (pos + length c) ps @ drop (pos + length c) header"
proof (cases "c = []")
  case True
  then show ?thesis by (simp add: store_at_def)
next
  case False
  have "take (pos + length c) ps = take pos ps @ c"
    using assms(2) by (simp add: take_add)
  then show ?thesis
    using False assms(1) by (simp add: store_at_def add.commute)
qed

lemma fs_write_ok:
  "fd_open h \<Longrightarrow> d = fd h \<Longrightarrow> \<not> failing h \<Longrightarrow>
   fs_write d c h = Inr (h\<lparr>content := store_at c (position h) (content h),
                          position := position h + length c\<rparr>)"
  by (simp add: fs_write_def)

lemma queued_write:
  "status s = Writable \<Longrightarrow> inflight s = None \<longrightarrow> buffered s = [] \<Longrightarrow>
   queued (stream_write c s) = queued s @ c \<and>
   status (stream_write c s) = Writable \<and> stream_fd (stream_write c s) = stream_fd s \<and>
   (inflight (stream_write c s) = None \<longrightarrow> buffered (stream_write c s) = [])"
  by (auto simp add: queued_def stream_write_def split: option.splits)

lemma onAudioData_recording:
  assumes "recording header ps w"
  shows "recording header (ps @ payload f) (snd (onAudioData f w))"
proof -
  have h: "headerWritten w" using assms by (simp add: recording_def)
  have s: "status (outStream w) = Writable"
    "inflight (outStream w) = None \<longrightarrow> buffered (outStream w) = []"
    using assms by (simp_all add: recording_def)
  show ?thesis
    using assms queued_write [OF s, of "payload f"]
    unfolding onAudioData_after_header(1) [OF h]
    by (simp add: recording_def)
qed

lemma turn_recording:
  assumes "recording header ps w"
  shows "recording header ps (turn w)"
proof (cases "inflight (outStream w)")
  case None
  with assms show ?thesis by (simp add: turn_def stream_turn_def recording_def)
next
  case (Some c)
  have a: "fd_open (host w)" "stream_fd (outStream w) = fd (host w)" "\<not> failing (host w)"
    "status (outStream w) = Writable" "position (host w) \<le> length ps"
    and q: "queued (outStream w) = drop (position (host w)) ps"
    and co: "content (host w) = take (position (host w)) ps @ drop (position (host w)) header"
    using assms by (simp_all add: recording_def)
  have q': "c @ concat (buffered (outStream w)) = drop (position (host w)) ps"
    using q Some by (simp add: queued_def)
  then have c: "c = take (length c) (drop (position (host w)) ps)"
    by (metis append_eq_conv_conj)
  have r: "concat (buffered (outStream w)) = drop (position (host w) + length c) ps"
    using q' by (metis append_eq_conv_conj drop_drop add.commute)
  have l: "position (host w) + length c \<le> length ps"
    using q' a(5) by (metis add.commute length_append length_drop le_add1
        ordered_cancel_comm_monoid_diff_class.add_diff_inverse add_le_cancel_left)
  have w: "fs_write (stream_fd (outStream w)) c (host w) =
    Inr ((host w)\<lparr>content := take (position (host w) + length c) ps @
                      drop (position (host w) + length c) header,
                  position := position (host w) + length c\<rparr>)"
    using fs_write_ok [OF a(1) a(2) a(3), of c] store_at_next [OF a(5) c, of header]
    by (simp add: co)
  have t: "turn w =
    w\<lparr>outStream := (outStream w)\<lparr>status := Writable,
          inflight := (if buffered (outStream w) = [] then None
                       else Some (concat (buffered (outStream w)))),
          buffered := []\<rparr>,
      host := (host w)\<lparr>content := take (position (host w) + length c) ps @
                      drop (position (host w) + length c) header,
                  position := position (host w) + length c\<rparr>\<rparr>"
    by (simp add: turn_def stream_turn_def Some w a(4))
  have b: "headerWritten w" "totalDataBytes w = length ps" "fileDescriptor w = fd (host w)"
    using assms by (simp_all add: recording_def)
  have "length (concat (buffered (outStream w))) = length ps - (position (host w) + length c)"
    unfolding r by simp
  then have e: "buffered (outStream w) = [] \<Longrightarrow> length ps = position (host w) + length c"
    using l by simp
  show ?thesis
    unfolding t recording_def queued_def
    using a b r l e by simp
qed


lemma turn_recording_queue:
  assumes "recording header ps w"
  shows "buffered (outStream (turn w)) = []"
    and "buffered (outStream w) = [] \<Longrightarrow> inflight (outStream (turn w)) = None"
proof -
  have a: "fd_open (host w)" "stream_fd (outStream w) = fd (host w)" "\<not> failing (host w)"
    "inflight (outStream w) = None \<longrightarrow> buffered (outStream w) = []"
    "status (outStream w) = Writable"
    using assms by (simp_all add: recording_def)
  show "buffered (outStream (turn w)) = []"
    using a(4)
    by (cases "inflight (outStream w)")
      (simp_all add: turn_def stream_turn_def fs_write_ok [OF a(1) a(2) a(3)] a(5))
  show "buffered (outStream w) = [] \<Longrightarrow> inflight (outStream (turn w)) = None"
    by (cases "inflight (outStream w)")
      (simp_all add: turn_def stream_turn_def fs_write_ok [OF a(1) a(2) a(3)] a(5))
qed

lemma settle_recording:
  assumes "recording header ps w"
  shows "recording header ps (settle w)" and "inflight (outStream (settle w)) = None"
proof -
  note r1 = turn_recording [OF assms]
  note r2 = turn_recording [OF r1]
  note r3 = turn_recording [OF r2]
  show "recording header ps (settle w)" using r3 by (simp add: settle_def)
  have "inflight (outStream (turn (turn w))) = None"
    by (rule turn_recording_queue(2) [OF r1 turn_recording_queue(1) [OF assms]])
  then have "inflight (outStream (turn (turn (turn w)))) = None"
    using r2 by (simp add: turn_def stream_turn_def recording_def)
  then show "inflight (outStream (settle w)) = None" by (simp add: settle_def)
qed

lemma recording_drained:
  assumes "recording header ps w" "inflight (outStream w) = None"
  shows "position (host w) = length ps"
    and "content (host w) = ps @ drop (length ps) header"
    and "buffered (outStream w) = []"
proof -
  have b: "buffered (outStream w) = []" using assms by (simp add: recording_def)
  have "queued (outStream w) = []" using assms(2) b by (simp add: queued_def)
  then have "drop (position (host w)) ps = []" using assms(1) by (simp add: recording_def)
  moreover have "position (host w) \<le> length ps" using assms(1) by (simp add: recording_def)
  ultimately show p: "position (host w) = length ps" by simp
  show "content (host w) = ps @ drop (length ps) header"
    using assms(1) p by (simp add: recording_def)
  show "buffered (outStream w) = []" by (rule b)
qed

lemma writeWavHeaderPlaceholder_Some:
  "writeWavHeaderPlaceholder this = (Some e, t) \<Longrightarrow> t = this"
  by (auto simp add: writeWavHeaderPlaceholder_def split: sum.splits)

lemma onAudioData_first_fail:
  assumes "\<not> headerWritten w"
    and "writeWavHeaderPlaceholder
           (w\<lparr>wavSampleRate := sampleRate f, wavBitsPerSample := bitsPerSample f,
              wavNumChannels := channelCount f\<rparr>) = (Some e, t)"
  shows "onAudioData f w = (Some e, t)"
  using assms by (simp add: onAudioData_def)

lemma onAudioData_first_ok:
  assumes "\<not> headerWritten w"
    and "writeWavHeaderPlaceholder
           (w\<lparr>wavSampleRate := sampleRate f, wavBitsPerSample := bitsPerSample f,
              wavNumChannels := channelCount f\<rparr>) = (None, t)"
  shows "onAudioData f w = onAudioData f (t\<lparr>headerWritten := True\<rparr>)"
  using assms by (simp add: onAudioData_def)

lemma first_ingest:
  assumes "headerWritten (snd (onAudioData f (constructor p d cb)))"
  shows "\<exists>header. length header = 44 \<and>
           wavHeader ((constructor p d cb)\<lparr>wavSampleRate := sampleRate f,
              wavBitsPerSample := bitsPerSample f, wavNumChannels := channelCount f\<rparr>) = Inr header \<and>
           recording header (payload f) (snd (onAudioData f (constructor p d cb)))"
proof -
  let ?init = "constructor p d cb"
  let ?w1 = "?init\<lparr>wavSampleRate := sampleRate f, wavBitsPerSample := bitsPerSample f,
              wavNumChannels := channelCount f\<rparr>"
  have n: "\<not> headerWritten ?init" by (simp add: constructor_def)
  obtain r t where rt: "writeWavHeaderPlaceholder ?w1 = (r, t)" by (cases "writeWavHeaderPlaceholder ?w1")
  show ?thesis
  proof (cases r)
    case (Some e)
    with rt have "onAudioData f ?init = (Some e, t)" and "t = ?w1"
      using onAudioData_first_fail [OF n] writeWavHeaderPlaceholder_Some by blast+
    with assms show ?thesis by (simp add: constructor_def)
  next
    case None
    from writeWavHeaderPlaceholder_None [OF rt [unfolded None]] obtain header where
      h: "wavHeader ?w1 = Inr header" and
      t: "t = ?w1\<lparr>host := (host ?w1)\<lparr>content := store_at header 0 (content (host ?w1))\<rparr>\<rparr>"
      by blast
    have len: "length header = 44" by (rule wavHeader_length [OF h])
    then have ne: "header \<noteq> []" by auto
    have "recording header [] (t\<lparr>headerWritten := True\<rparr>)"
      unfolding t using ne
      by (simp add: recording_def queued_def constructor_def fs_openSync_def
          fs_createWriteStream_def store_at_empty)
    from onAudioData_recording [OF this, of f]
    have "recording header (payload f) (snd (onAudioData f ?init))"
      using onAudioData_first_ok [OF n rt [unfolded None]] by simp
    with h len show ?thesis by blast
  qed
qed

lemma run_quiet_recording:
  "recording header ps w \<Longrightarrow> quiet evs \<Longrightarrow>
   recording header (ps @ concat (map payload (frames evs))) (run evs w)"
proof (induction evs arbitrary: ps w)
  case Nil
  then show ?case by simp
next
  case (Cons e evs)
  show ?case
  proof (cases e)
    case (Ingest f)
    from Cons.IH [OF onAudioData_recording [OF Cons.prems(1), of f]] Cons.prems(2) Ingest
    show ?thesis by simp
  next
    case Tick
    from Cons.IH [OF turn_recording [OF Cons.prems(1)]] Cons.prems(2) Tick
    show ?thesis by simp
  next
    case Finalize
    with Cons.prems(2) show ?thesis by simp
  next
    case (HostFailing b)
    with Cons.prems(2) show ?thesis by simp
  qed
qed

subsection \<open>Writing the sizes back\<close>

lemma blit_whole: "length src = length buf \<Longrightarrow> blit src 0 buf = src"
  by (simp add: blit_def)

lemma writeUInt32LE_nat:
  "n \<le> 4294967295 \<Longrightarrow> length buf = 4 \<Longrightarrow> writeUInt32LE (of_nat n) 0 buf = Inr (le_bytes 4 n)"
proof -
  assume n: "n \<le> 4294967295" and l: "length buf = 4"
  have "(of_nat n :: rat) \<le> of_nat 4294967295" using n by (simp only: of_nat_le_iff)
  then have "(of_nat n :: rat) \<le> 4294967295" by simp
  then show ?thesis
    using l by (simp add: writeUInt32LE_ok blit_whole length_le_bytes)
qed

lemma writeUInt32LE_nat_bad:
  "4294967295 < n \<Longrightarrow> writeUInt32LE (of_nat n) off buf = Inl ERR_OUT_OF_RANGE"
proof -
  assume n: "4294967295 < n"
  have "(of_nat 4294967295 :: rat) < of_nat n" using n by (simp only: of_nat_less_iff)
  then have "4294967295 < (of_nat n :: rat)" by simp
  then show ?thesis by (simp add: writeUInt32LE_bad)
qed

lemma writeUInt32LE_nat36:
  "36 + n \<le> 4294967295 \<Longrightarrow> length buf = 4 \<Longrightarrow>
   writeUInt32LE (36 + of_nat n) 0 buf = Inr (le_bytes 4 (36 + n))"
  using writeUInt32LE_nat [of "36 + n" buf] by simp

lemma writeUInt32LE_nat36_bad:
  "4294967295 < 36 + n \<Longrightarrow> writeUInt32LE (36 + of_nat n) off buf = Inl ERR_OUT_OF_RANGE"
  using writeUInt32LE_nat_bad [of "36 + n" off buf] by simp

lemma updateWavHeaderSizes_chain:
  "updateWavHeaderSizes this =
     (case writeUInt32LE (36 + of_nat (totalDataBytes this)) 0 (Buffer_alloc 4 0) of
           Inl e \<Rightarrow> (Some e, this)
         | Inr buf \<Rightarrow>
             (case fs_writeSync (fileDescriptor this) buf 0 4 4 (host this) of
                Inl e \<Rightarrow> (Some e, this)
              | Inr h \<Rightarrow>
                  (case writeUInt32LE (of_nat (totalDataBytes this)) 0 buf of
                     Inl e \<Rightarrow> (Some e, this\<lparr>host := h\<rparr>)
                   | Inr buf \<Rightarrow>
                       (case fs_writeSync (fileDescriptor this) buf 0 4 40 h of
                          Inl e \<Rightarrow> (Some e, this\<lparr>host := h\<rparr>)
                        | Inr h' \<Rightarrow> (None, this\<lparr>host := h'\<rparr>)))))"
  by (simp add: updateWavHeaderSizes_def Let_def)

lemma updateWavHeaderSizes_ok:
  assumes "fd_open (host w)" "fileDescriptor w = fd (host w)" "\<not> failing (host w)"
    "totalDataBytes w + 36 \<le> 4294967295"
  shows "updateWavHeaderSizes w =
    (None, w\<lparr>host := (host w)\<lparr>content :=
       store_at (le_bytes 4 (totalDataBytes w)) 40
         (store_at (le_bytes 4 (36 + totalDataBytes w)) 4 (content (host w)))\<rparr>\<rparr>)"
proof -
  have a: "36 + totalDataBytes w \<le> 4294967295" "totalDataBytes w \<le> 4294967295"
    using assms(4) by simp_all
  show ?thesis
    unfolding updateWavHeaderSizes_chain
    using assms(1-3)
    by (simp add: writeUInt32LE_nat36 [OF a(1)] writeUInt32LE_nat [OF a(2)] Buffer_alloc_def
        length_le_bytes fs_writeSync_def)
qed

lemma updateWavHeaderSizes_range:
  assumes "4294967295 < totalDataBytes w + 36"
  shows "updateWavHeaderSizes w = (Some ERR_OUT_OF_RANGE, w)"
proof -
  have "4294967295 < 36 + totalDataBytes w" using assms by simp
  from writeUInt32LE_nat36_bad [OF this] show ?thesis
    unfolding updateWavHeaderSizes_chain by simp
qed

lemma updateWavHeaderSizes_closed:
  assumes "totalDataBytes w + 36 \<le> 4294967295"
    and "\<not> fd_open (host w) \<or> fileDescriptor w \<noteq> fd (host w)"
  shows "updateWavHeaderSizes w = (Some EBADF, w)"
proof -
  have a: "36 + totalDataBytes w \<le> 4294967295" using assms(1) by simp
  show ?thesis
    unfolding updateWavHeaderSizes_chain using assms(2)
    by (auto simp add: writeUInt32LE_nat36 [OF a] Buffer_alloc_def fs_writeSync_def)
qed

lemma updateWavHeaderSizes_failing:
  assumes "totalDataBytes w + 36 \<le> 4294967295"
    and "fd_open (host w)" "fileDescriptor w = fd (host w)" "failing (host w)"
  shows "updateWavHeaderSizes w = (Some EIO, w)"
proof -
  have a: "36 + totalDataBytes w \<le> 4294967295" using assms(1) by simp
  show ?thesis
    unfolding updateWavHeaderSizes_chain using assms(2-4)
    by (simp add: writeUInt32LE_nat36 [OF a] Buffer_alloc_def fs_writeSync_def)
qed

lemma updateWavHeaderSizes_Some: "updateWavHeaderSizes w = (Some e, t) \<Longrightarrow> t = w"
proof -
  assume r: "updateWavHeaderSizes w = (Some e, t)"
  show ?thesis
  proof (cases "4294967295 < totalDataBytes w + 36")
    case True
    with r updateWavHeaderSizes_range [OF True] show ?thesis by simp
  next
    case False
    then have a: "totalDataBytes w + 36 \<le> 4294967295" by simp
    show ?thesis
    proof (cases "fd_open (host w) \<and> fileDescriptor w = fd (host w)")
      case False
      then have "\<not> fd_open (host w) \<or> fileDescriptor w \<noteq> fd (host w)" by blast
      from updateWavHeaderSizes_closed [OF a this] r show ?thesis by simp
    next
      case True
      show ?thesis
      proof (cases "failing (host w)")
        case f: True
        from updateWavHeaderSizes_failing [OF a] True f r show ?thesis by simp
      next
        case f: False
        from updateWavHeaderSizes_ok [OF _ _ f a] True r show ?thesis by simp
      qed
    qed
  qed
qed

subsection \<open>Finalizing\<close>

lemma cleanup_skip:
  "\<not> (headerWritten w \<and> 0 < totalDataBytes w) \<Longrightarrow>
   cleanup w = (None, w\<lparr>outStream := stream_end (outStream w)\<rparr>)"
  by (auto simp add: cleanup_def)

lemma cleanup_update_ok:
  "headerWritten w \<Longrightarrow> 0 < totalDataBytes w \<Longrightarrow> updateWavHeaderSizes w = (None, t) \<Longrightarrow>
   cleanup w = (None, t\<lparr>outStream := stream_end (outStream t)\<rparr>)"
  by (simp add: cleanup_def)

lemma cleanup_update_fail:
  "headerWritten w \<Longrightarrow> 0 < totalDataBytes w \<Longrightarrow> updateWavHeaderSizes w = (Some e, t) \<Longrightarrow>
   cleanup w = (Some e, w)"
  using updateWavHeaderSizes_Some [of w e t] by (simp add: cleanup_def)

lemma cleanup_recording:
  assumes r: "recording header ps w" and pos: "0 < length ps"
    and fit: "length ps + 36 \<le> 4294967295"
  shows "cleanup w =
    (None, w\<lparr>outStream := (outStream w)\<lparr>status := Ending\<rparr>,
             host := (host w)\<lparr>content :=
               store_at (le_bytes 4 (length ps)) 40
                 (store_at (le_bytes 4 (36 + length ps)) 4 (content (host w)))\<rparr>\<rparr>)"
proof -
  have a: "headerWritten w" "0 < totalDataBytes w" "fd_open (host w)"
    "fileDescriptor w = fd (host w)" "\<not> failing (host w)" "totalDataBytes w + 36 \<le> 4294967295"
    "status (outStream w) = Writable" "totalDataBytes w = length ps"
    using r pos fit by (simp_all add: recording_def)
  show ?thesis
    unfolding cleanup_update_ok [OF a(1) a(2) updateWavHeaderSizes_ok [OF a(3) a(4) a(5) a(6)]]
    using a(7,8) by (simp add: stream_end_def)
qed

lemma sizes_after_write_back:
  assumes "44 \<le> length c" "n + 36 \<le> 4294967295"
  shows "le_value (field 4 4 (store_at (le_bytes 4 n) 40 (store_at (le_bytes 4 (36 + n)) 4 c)))
           = 36 + n"
    and "le_value (field 40 4 (store_at (le_bytes 4 n) 40 (store_at (le_bytes 4 (36 + n)) 4 c)))
           = n"
proof -
  let ?c1 = "store_at (le_bytes 4 (36 + n)) 4 c"
  have l1: "44 \<le> length ?c1" using assms(1) by (simp add: length_store_at length_le_bytes)
  have "field 4 4 (store_at (le_bytes 4 n) 40 ?c1) = field 4 4 ?c1"
    using l1 by (simp add: field_store_at_before)
  also have "\<dots> = le_bytes 4 (36 + n)"
    using field_store_at_same [of 4 c "le_bytes 4 (36 + n)"] assms(1)
    by (simp add: length_le_bytes)
  finally show "le_value (field 4 4 (store_at (le_bytes 4 n) 40 ?c1)) = 36 + n"
    using assms(2) by (simp add: le_value_le_bytes)
  have "field 40 4 (store_at (le_bytes 4 n) 40 ?c1) = le_bytes 4 n"
    using field_store_at_same [of 40 ?c1 "le_bytes 4 n"] l1 by (simp add: length_le_bytes)
  then show "le_value (field 40 4 (store_at (le_bytes 4 n) 40 ?c1)) = n"
    using assms(2) by (simp add: le_value_le_bytes)
qed

lemma length_concat_payload:
  "length (concat (map payload fs)) = sum_list (map (\<lambda>g. length (payload g)) fs)"
  by (simp add: length_concat comp_def)

lemma turn_idle:
  assumes "inflight (outStream w) = None"
  shows "content (host (turn w)) = content (host w)"
    and "position (host (turn w)) = position (host w)"
    and "inflight (outStream (turn w)) = None"
  using assms
  by (simp_all add: turn_def stream_turn_def fs_close_def split: stream_status.splits)

lemma settle_idle:
  assumes "inflight (outStream w) = None"
  shows "content (host (settle w)) = content (host w)"
    and "position (host (settle w)) = position (host w)"
    and "inflight (outStream (settle w)) = None"
proof -
  note a = turn_idle [OF assms]
  note b = turn_idle [OF a(3)]
  note c = turn_idle [OF b(3)]
  show "content (host (settle w)) = content (host w)"
    and "position (host (settle w)) = position (host w)"
    and "inflight (outStream (settle w)) = None"
    using a b c by (simp_all add: settle_def)
qed

lemma first_ingest_header_written:
  assumes "header_fits ((constructor p d cb)\<lparr>wavSampleRate := sampleRate f,
              wavBitsPerSample := bitsPerSample f, wavNumChannels := channelCount f\<rparr>)"
  shows "headerWritten (snd (onAudioData f (constructor p d cb)))"
proof -
  let ?init = "constructor p d cb"
  let ?w1 = "?init\<lparr>wavSampleRate := sampleRate f, wavBitsPerSample := bitsPerSample f,
              wavNumChannels := channelCount f\<rparr>"
  have n: "\<not> headerWritten ?init" by (simp add: constructor_def)
  from wavHeader_fits [OF assms] obtain header where h: "wavHeader ?w1 = Inr header" by blast
  have "writeWavHeaderPlaceholder ?w1 =
    (None, ?w1\<lparr>host := (host ?w1)\<lparr>content := store_at header 0 (content (host ?w1))\<rparr>\<rparr>)"
    by (rule writeWavHeaderPlaceholder_ok [OF h]) (simp_all add: constructor_def fs_openSync_def)
  from onAudioData_first_ok [OF n this] show ?thesis
    by (simp add: onAudioData_after_header(1))
qed

lemma first_ingest_buffered:
  "buffered (outStream (snd (onAudioData f (constructor p d cb)))) = []"
proof -
  let ?init = "constructor p d cb"
  let ?w1 = "?init\<lparr>wavSampleRate := sampleRate f, wavBitsPerSample := bitsPerSample f,
              wavNumChannels := channelCount f\<rparr>"
  have n: "\<not> headerWritten ?init" by (simp add: constructor_def)
  obtain r t where rt: "writeWavHeaderPlaceholder ?w1 = (r, t)"
    by (cases "writeWavHeaderPlaceholder ?w1")
  show ?thesis
  proof (cases r)
    case (Some e)
    with rt have "onAudioData f ?init = (Some e, t)" and "t = ?w1"
      using onAudioData_first_fail [OF n] writeWavHeaderPlaceholder_Some by blast+
    then show ?thesis by (simp add: constructor_def fs_createWriteStream_def)
  next
    case None
    from writeWavHeaderPlaceholder_None [OF rt [unfolded None]] obtain header where
      t: "t = ?w1\<lparr>host := (host ?w1)\<lparr>content := store_at header 0 (content (host ?w1))\<rparr>\<rparr>"
      by blast
    have "snd (onAudioData f ?init) = snd (onAudioData f (t\<lparr>headerWritten := True\<rparr>))"
      using onAudioData_first_ok [OF n rt [unfolded None]] by simp
    then show ?thesis
      unfolding t
      by (simp add: onAudioData_after_header(1) constructor_def fs_createWriteStream_def
          stream_write_def)
  qed
qed

text \<open>
  Claim C1 (amended). A fresh writer is given a first frame \<open>f\<close> whose header
  write succeeds, and then further frames, with turns of the event loop
  anywhere among the calls and no failure of the host. No write of the stream
  is pending when \<^verbatim>\<open>cleanup\<close> is called. The payload lengths sum to \<open>n\<close>
  with \<open>0 < n\<close> and \<open>n + 36\<close> within 32 bits. Then \<^verbatim>\<open>cleanup\<close> returns, and
  the four bytes at offset 4 of the file are \<open>36 + n\<close> and the four bytes at
  offset 40 are \<open>n\<close>, little-endian, both right after the call and when the
  event loop has closed the file.
\<close>

theorem sizes_written_back:
  assumes "headerWritten (snd (onAudioData f (constructor p d cb)))"
    and "quiet evs"
    and "inflight (outStream (run evs (snd (onAudioData f (constructor p d cb))))) = None"
    and "0 < sum_list (map (\<lambda>g. length (payload g)) (f # frames evs))"
    and "sum_list (map (\<lambda>g. length (payload g)) (f # frames evs)) + 36 \<le> 4294967295"
  shows "fst (cleanup (run evs (snd (onAudioData f (constructor p d cb))))) = None \<and>
         le_value (field 4 4 (content (host (snd (cleanup
           (run evs (snd (onAudioData f (constructor p d cb)))))))))
           = 36 + sum_list (map (\<lambda>g. length (payload g)) (f # frames evs)) \<and>
         le_value (field 40 4 (content (host (snd (cleanup
           (run evs (snd (onAudioData f (constructor p d cb)))))))))
           = sum_list (map (\<lambda>g. length (payload g)) (f # frames evs)) \<and>
         le_value (field 4 4 (content (host (settle (snd (cleanup
           (run evs (snd (onAudioData f (constructor p d cb))))))))))
           = 36 + sum_list (map (\<lambda>g. length (payload g)) (f # frames evs)) \<and>
         le_value (field 40 4 (content (host (settle (snd (cleanup
           (run evs (snd (onAudioData f (constructor p d cb))))))))))
           = sum_list (map (\<lambda>g. length (payload g)) (f # frames evs))"
proof -
  let ?w = "run evs (snd (onAudioData f (constructor p d cb)))"
  let ?ps = "payload f @ concat (map payload (frames evs))"
  from first_ingest [OF assms(1)] obtain header where
    len: "length header = 44" and
    r1: "recording header (payload f) (snd (onAudioData f (constructor p d cb)))"
    by blast
  have r: "recording header ?ps ?w" by (rule run_quiet_recording [OF r1 assms(2)])
  have n: "length ?ps = sum_list (map (\<lambda>g. length (payload g)) (f # frames evs))"
    using length_concat_payload [of "f # frames evs"] by simp
  have c: "44 \<le> length (content (host ?w))"
    unfolding recording_drained(2) [OF r assms(3)] using len by simp
  have pos: "0 < length ?ps" and fit: "length ?ps + 36 \<le> 4294967295"
    using assms(4,5) unfolding n by simp_all
  note cl = cleanup_recording [OF r pos fit]
  have i: "inflight (outStream (snd (cleanup ?w))) = None"
    unfolding cl using assms(3) by simp
  have s: "content (host (settle (snd (cleanup ?w)))) = content (host (snd (cleanup ?w)))"
    by (rule settle_idle(1) [OF i])
  show ?thesis
    unfolding s unfolding cl n [symmetric]
    using sizes_after_write_back [OF c fit] by simp
qed

theorem sizes_written_back_witness:
  "fst (cleanup (run [Tick] (snd (onAudioData (frame_of 16000 16 1 (replicate 200 0))
      (constructor ''/tmp/speaker_audio.wav'' 3 None))))) = None \<and>
   le_value (field 4 4 (content (host (settle (snd (cleanup
     (run [Tick] (snd (onAudioData (frame_of 16000 16 1 (replicate 200 0))
        (constructor ''/tmp/speaker_audio.wav'' 3 None)))))))))) = 236 \<and>
   le_value (field 40 4 (content (host (settle (snd (cleanup
     (run [Tick] (snd (onAudioData (frame_of 16000 16 1 (replicate 200 0))
        (constructor ''/tmp/speaker_audio.wav'' 3 None)))))))))) = 200"
proof -
  let ?f = "frame_of 16000 16 1 (replicate 200 0)"
  let ?init = "constructor ''/tmp/speaker_audio.wav'' 3 None"
  have n: "sum_list (map (\<lambda>g. length (payload g)) (?f # frames [Tick])) = 200"
    by (simp add: payload_def Buffer_from_def frame_of_def)
  have h: "headerWritten (snd (onAudioData ?f ?init))"
    by (rule first_ingest_header_written) (simp add: header_fits_def frame_of_def)
  from first_ingest [OF h] obtain header where
    r: "recording header (payload ?f) (snd (onAudioData ?f ?init))" by auto
  have q: "quiet [Tick]" by simp
  have i: "inflight (outStream (run [Tick] (snd (onAudioData ?f ?init)))) = None"
    using turn_recording_queue(2) [OF r] first_ingest_buffered [of ?f] by simp
  have "0 < sum_list (map (\<lambda>g. length (payload g)) (?f # frames [Tick]))"
    and "sum_list (map (\<lambda>g. length (payload g)) (?f # frames [Tick])) + 36 \<le> 4294967295"
    unfolding n by simp_all
  from sizes_written_back [OF h q i this] show ?thesis
    unfolding n by simp
qed

text \<open>
  The claim as stated fails on a frame without payload, also when the event
  loop runs between the calls: the header is written, no byte is counted,
  \<^verbatim>\<open>cleanup\<close> skips the write-back, and the field at offset 4 stays 0 where
  the claim has 36, right after the call and when the file has been closed.
\<close>

theorem sizes_left_zero_without_payload:
  "le_value (field 4 4 (content (host (snd (cleanup
     (run [Ingest (frame_of 48000 16 2 []), Tick]
        (constructor ''/tmp/speaker_audio.wav'' 3 None))))))) \<noteq>
   36 + sum_list (map (\<lambda>g. length (payload g)) [frame_of 48000 16 2 []]) \<and>
   le_value (field 4 4 (content (host (settle (snd (cleanup
     (run [Ingest (frame_of 48000 16 2 []), Tick]
        (constructor ''/tmp/speaker_audio.wav'' 3 None)))))))) \<noteq>
   36 + sum_list (map (\<lambda>g. length (payload g)) [frame_of 48000 16 2 []])"
proof -
  let ?f = "frame_of 48000 16 2 []"
  let ?init = "constructor ''/tmp/speaker_audio.wav'' 3 None"
  let ?w1 = "?init\<lparr>wavSampleRate := sampleRate ?f,
              wavBitsPerSample := bitsPerSample ?f, wavNumChannels := channelCount ?f\<rparr>"
  let ?w = "run [Tick] (snd (onAudioData ?f ?init))"
  have fits: "header_fits ?w1" by (simp add: header_fits_def frame_of_def)
  have e: "payload ?f = []" by (simp add: payload_def Buffer_from_def frame_of_def)
  have hw: "headerWritten (snd (onAudioData ?f ?init))"
    by (rule first_ingest_header_written [OF fits])
  from first_ingest [OF hw] obtain header where
    h: "wavHeader ?w1 = Inr header" and
    r1: "recording header (payload ?f) (snd (onAudioData ?f ?init))"
    by blast
  have r: "recording header [] ?w"
    using run_quiet_recording [OF r1, of "[Tick]"] e by simp
  have i: "inflight (outStream ?w) = None"
    using turn_recording_queue(2) [OF r1] first_ingest_buffered [of ?f] by simp
  have c0: "content (host ?w) = header"
    using recording_drained(2) [OF r i] by simp
  from h [unfolded wavHeader_fits [OF fits]]
  have c: "content (host ?w) = ascii ''RIFF'' @ [0, 0, 0, 0] @ ascii ''WAVE'' @ ascii ''fmt '' @
        le_bytes 4 16 @ le_bytes 2 1 @ le_bytes 2 (nat \<lfloor>wavNumChannels ?w1\<rfloor>) @
        le_bytes 4 (nat \<lfloor>wavSampleRate ?w1\<rfloor>) @
        le_bytes 4 (nat \<lfloor>wavSampleRate ?w1 * wavNumChannels ?w1 * (wavBitsPerSample ?w1 / 8)\<rfloor>) @
        le_bytes 2 (nat \<lfloor>wavNumChannels ?w1 * (wavBitsPerSample ?w1 / 8)\<rfloor>) @
        le_bytes 2 (nat \<lfloor>wavBitsPerSample ?w1\<rfloor>) @ ascii ''data'' @ [0, 0, 0, 0]"
    unfolding c0 by simp
  have f: "field 4 4 (content (host ?w)) = [0, 0, 0, 0]"
    unfolding c by (rule header_fields(2))
  have t: "totalDataBytes ?w = 0" using r by (simp add: recording_def)
  have cl: "cleanup ?w = (None, ?w\<lparr>outStream := stream_end (outStream ?w)\<rparr>)"
    using t by (intro cleanup_skip) simp
  have c1: "content (host (snd (cleanup ?w))) = content (host ?w)"
    unfolding cl by simp
  have "inflight (outStream (snd (cleanup ?w))) = None"
    unfolding cl using i by (simp add: stream_end_def)
  from settle_idle(1) [OF this]
  have c2: "content (host (settle (snd (cleanup ?w)))) = content (host ?w)"
    unfolding c1 .
  have "le_value (field 4 4 (content (host (snd (cleanup ?w))))) = 0"
    and "le_value (field 4 4 (content (host (settle (snd (cleanup ?w)))))) = 0"
    unfolding c1 c2 f by simp_all
  then show ?thesis using e by simp
qed

subsection \<open>Where the payload lands\<close>

lemma file_after_ingest:
  assumes "headerWritten (snd (onAudioData f (constructor p d cb)))" and "quiet evs"
  shows "\<exists>header. wavHeader ((constructor p d cb)\<lparr>wavSampleRate := sampleRate f,
              wavBitsPerSample := bitsPerSample f, wavNumChannels := channelCount f\<rparr>) = Inr header \<and>
           content (host (settle (run (Ingest f # evs) (constructor p d cb)))) =
             concat (map payload (f # frames evs)) @
             drop (length (concat (map payload (f # frames evs)))) header"
proof -
  from first_ingest [OF assms(1)] obtain header where
    h: "wavHeader ((constructor p d cb)\<lparr>wavSampleRate := sampleRate f,
              wavBitsPerSample := bitsPerSample f, wavNumChannels := channelCount f\<rparr>) = Inr header" and
    r1: "recording header (payload f) (snd (onAudioData f (constructor p d cb)))"
    by blast
  from run_quiet_recording [OF r1 assms(2)]
  have r: "recording header (concat (map payload (f # frames evs)))
             (run (Ingest f # evs) (constructor p d cb))" by simp
  note s = settle_recording [OF r]
  from recording_drained(2) [OF s] h show ?thesis by blast
qed

text \<open>
  Claim C7 fails on the code. Frame F1 carries the bytes 1 to 8, frame F2 the
  bytes 9 to 12. When the stream has written both payloads, the twelve bytes
  stand at offset 0, over the tags \<^verbatim>\<open>RIFF\<close> and \<^verbatim>\<open>WAVE\<close> and the size
  field between them; the rest of the header follows from offset 12, the file
  is 44 bytes long, and there is nothing at offset 44. This is so whether the
  event loop runs between the two calls or only after them.
\<close>

theorem payload_overwrites_header:
  "content (host (settle (run [Ingest (frame_of 48000 16 2 [1, 2, 3, 4, 5, 6, 7, 8]),
                       Ingest (frame_of 48000 16 2 [9, 10, 11, 12])]
                      (constructor ''/tmp/speaker_audio.wav'' 3 None)))) =
     [1, 2, 3, 4, 5, 6, 7, 8, 9, 10, 11, 12] @ ascii ''fmt '' @
     [16, 0, 0, 0, 1, 0, 2, 0, 128, 187, 0, 0, 0, 238, 2, 0, 4, 0, 16, 0] @ ascii ''data'' @
     [0, 0, 0, 0] \<and>
   field 44 12 (content (host (settle (run [Ingest (frame_of 48000 16 2 [1, 2, 3, 4, 5, 6, 7, 8]),
                       Ingest (frame_of 48000 16 2 [9, 10, 11, 12])]
                      (constructor ''/tmp/speaker_audio.wav'' 3 None))))) = [] \<and>
   content (host (settle (run [Ingest (frame_of 48000 16 2 [1, 2, 3, 4, 5, 6, 7, 8]), Tick,
                       Ingest (frame_of 48000 16 2 [9, 10, 11, 12])]
                      (constructor ''/tmp/speaker_audio.wav'' 3 None)))) =
     [1, 2, 3, 4, 5, 6, 7, 8, 9, 10, 11, 12] @ ascii ''fmt '' @
     [16, 0, 0, 0, 1, 0, 2, 0, 128, 187, 0, 0, 0, 238, 2, 0, 4, 0, 16, 0] @ ascii ''data'' @
     [0, 0, 0, 0]"
proof -
  let ?f1 = "frame_of 48000 16 2 [1, 2, 3, 4, 5, 6, 7, 8]"
  let ?f2 = "frame_of 48000 16 2 [9, 10, 11, 12]"
  let ?init = "constructor ''/tmp/speaker_audio.wav'' 3 None"
  let ?w1 = "?init\<lparr>wavSampleRate := sampleRate ?f1,
              wavBitsPerSample := bitsPerSample ?f1, wavNumChannels := channelCount ?f1\<rparr>"
  have fits: "header_fits ?w1" by (simp add: header_fits_def frame_of_def)
  have hw: "headerWritten (snd (onAudioData ?f1 ?init))"
    by (rule first_ingest_header_written [OF fits])
  have p: "concat (map payload [?f1, ?f2]) = [1, 2, 3, 4, 5, 6, 7, 8, 9, 10, 11, 12]"
    by (simp add: payload_def Buffer_from_def frame_of_def)
  have header: "wavHeader ?w1 = Inr header \<Longrightarrow>
      header = ascii ''RIFF'' @ [0, 0, 0, 0] @ ascii ''WAVE'' @ ascii ''fmt '' @
      [16, 0, 0, 0, 1, 0, 2, 0, 128, 187, 0, 0, 0, 238, 2, 0, 4, 0, 16, 0] @ ascii ''data'' @
      [0, 0, 0, 0]" for header
    unfolding wavHeader_fits [OF fits]
    by (simp add: frame_of_def le_bytes_2 le_bytes_4)
  have q: "quiet [Ingest ?f2]" "quiet [Tick, Ingest ?f2]" by simp_all
  from file_after_ingest [OF hw q(1)] obtain ha where
    h: "wavHeader ?w1 = Inr ha" and
    c: "content (host (settle (run [Ingest ?f1, Ingest ?f2] ?init))) =
          concat (map payload [?f1, ?f2]) @ drop (length (concat (map payload [?f1, ?f2]))) ha"
    by auto
  from file_after_ingest [OF hw q(2)] obtain hb where
    h': "wavHeader ?w1 = Inr hb" and
    c': "content (host (settle (run [Ingest ?f1, Tick, Ingest ?f2] ?init))) =
          concat (map payload [?f1, ?f2]) @ drop (length (concat (map payload [?f1, ?f2]))) hb"
    by auto
  have a: "content (host (settle (run [Ingest ?f1, Ingest ?f2] ?init))) =
     [1, 2, 3, 4, 5, 6, 7, 8, 9, 10, 11, 12] @ ascii ''fmt '' @
     [16, 0, 0, 0, 1, 0, 2, 0, 128, 187, 0, 0, 0, 238, 2, 0, 4, 0, 16, 0] @ ascii ''data'' @
     [0, 0, 0, 0]"
    unfolding c p header [OF h] by (simp add: ascii_def)
  have b: "content (host (settle (run [Ingest ?f1, Tick, Ingest ?f2] ?init))) =
     [1, 2, 3, 4, 5, 6, 7, 8, 9, 10, 11, 12] @ ascii ''fmt '' @
     [16, 0, 0, 0, 1, 0, 2, 0, 128, 187, 0, 0, 0, 238, 2, 0, 4, 0, 16, 0] @ ascii ''data'' @
     [0, 0, 0, 0]"
    unfolding c' p header [OF h'] by (simp add: ascii_def)
  have "field 44 12 (content (host (settle (run [Ingest ?f1, Ingest ?f2] ?init)))) = []"
    unfolding a by (simp add: field_def ascii_def)
  with a b show ?thesis by blast
qed

subsection \<open>What every reachable state satisfies\<close>

lemma consistent_constructor: "consistent (constructor p d cb)"
  by (simp add: consistent_def constructor_def fs_openSync_def fs_createWriteStream_def)

lemma stream_write_consistent:
  shows "stream_fd (stream_write chunk s) = stream_fd s"
    and "(status (stream_write chunk s) = Closed) = (status s = Closed)"
    and "(status (stream_write chunk s) = Writable) = (status s = Writable)"
    and "inflight s = None \<longrightarrow> buffered s = [] \<Longrightarrow>
         inflight (stream_write chunk s) = None \<longrightarrow> buffered (stream_write chunk s) = []"
    and "status s = Closed \<longrightarrow> inflight s = None \<Longrightarrow>
         status (stream_write chunk s) = Closed \<longrightarrow> inflight (stream_write chunk s) = None"
    and "status s = Destroyed \<longrightarrow> buffered s = [] \<Longrightarrow>
         status (stream_write chunk s) = Destroyed \<longrightarrow> buffered (stream_write chunk s) = []"
  by (auto simp add: stream_write_def split: stream_status.splits option.splits)

lemma consistent_onAudioData_header:
  assumes "headerWritten w" "consistent w"
  shows "consistent (snd (onAudioData f w))"
  using assms stream_write_consistent [where s = "outStream w" and chunk = "payload f"]
  unfolding onAudioData_after_header(1) [OF assms(1)]
  by (simp add: consistent_def)

lemma consistent_onAudioData:
  assumes "consistent w"
  shows "consistent (snd (onAudioData f w))"
proof (cases "headerWritten w")
  case True
  then show ?thesis using assms by (rule consistent_onAudioData_header)
next
  case False
  let ?w1 = "w\<lparr>wavSampleRate := sampleRate f, wavBitsPerSample := bitsPerSample f,
              wavNumChannels := channelCount f\<rparr>"
  obtain r t where rt: "writeWavHeaderPlaceholder ?w1 = (r, t)"
    by (cases "writeWavHeaderPlaceholder ?w1")
  show ?thesis
  proof (cases r)
    case (Some e)
    with rt have "onAudioData f w = (Some e, t)" and "t = ?w1"
      using onAudioData_first_fail [OF False] writeWavHeaderPlaceholder_Some by blast+
    with assms show ?thesis by (simp add: consistent_def)
  next
    case None
    from writeWavHeaderPlaceholder_None [OF rt [unfolded None]] obtain header where
      t: "t = ?w1\<lparr>host := (host ?w1)\<lparr>content := store_at header 0 (content (host ?w1))\<rparr>\<rparr>"
      by blast
    have "consistent (t\<lparr>headerWritten := True\<rparr>)"
      unfolding t using assms by (simp add: consistent_def)
    then have "consistent (snd (onAudioData f (t\<lparr>headerWritten := True\<rparr>)))"
      by (intro consistent_onAudioData_header) simp_all
    then show ?thesis
      using onAudioData_first_ok [OF False rt [unfolded None]] by simp
  qed
qed

lemma updateWavHeaderSizes_None:
  assumes "updateWavHeaderSizes w = (None, t)"
  shows "t = w\<lparr>host := (host w)\<lparr>content :=
       store_at (le_bytes 4 (totalDataBytes w)) 40
         (store_at (le_bytes 4 (36 + totalDataBytes w)) 4 (content (host w)))\<rparr>\<rparr>"
    and "totalDataBytes w + 36 \<le> 4294967295"
    and "fd_open (host w)" and "fileDescriptor w = fd (host w)" and "\<not> failing (host w)"
proof -
  have a: "totalDataBytes w + 36 \<le> 4294967295"
    using updateWavHeaderSizes_range [of w] assms by (cases "4294967295 < totalDataBytes w + 36") auto
  have b: "fd_open (host w) \<and> fileDescriptor w = fd (host w)"
    using updateWavHeaderSizes_closed [OF a] assms by auto
  have c: "\<not> failing (host w)"
    using updateWavHeaderSizes_failing [OF a] b assms by auto
  show "totalDataBytes w + 36 \<le> 4294967295" "fd_open (host w)" "fileDescriptor w = fd (host w)"
    "\<not> failing (host w)"
    using a b c by simp_all
  show "t = w\<lparr>host := (host w)\<lparr>content :=
       store_at (le_bytes 4 (totalDataBytes w)) 40
         (store_at (le_bytes 4 (36 + totalDataBytes w)) 4 (content (host w)))\<rparr>\<rparr>"
    using updateWavHeaderSizes_ok [OF _ _ c a] b assms by simp
qed

lemma cleanup_cases:
  obtains (skip) "\<not> (headerWritten w \<and> 0 < totalDataBytes w)"
      "cleanup w = (None, w\<lparr>outStream := stream_end (outStream w)\<rparr>)"
  | (written) t where "headerWritten w" "0 < totalDataBytes w"
      "updateWavHeaderSizes w = (None, t)"
      "cleanup w = (None, t\<lparr>outStream := stream_end (outStream t)\<rparr>)"
  | (thrown) e where "headerWritten w" "0 < totalDataBytes w"
      "updateWavHeaderSizes w = (Some e, w)" "cleanup w = (Some e, w)"
proof (cases "headerWritten w \<and> 0 < totalDataBytes w")
  case False
  then show ?thesis using skip cleanup_skip by blast
next
  case True
  obtain r t where rt: "updateWavHeaderSizes w = (r, t)" by (cases "updateWavHeaderSizes w")
  show ?thesis
  proof (cases r)
    case None
    with rt True show ?thesis using written cleanup_update_ok by blast
  next
    case (Some e)
    with rt have "t = w" using updateWavHeaderSizes_Some by blast
    with rt Some True show ?thesis using thrown cleanup_update_fail by blast
  qed
qed

lemma stream_end_consistent:
  shows "stream_fd (stream_end s) = stream_fd s"
    and "(status (stream_end s) = Closed) = (status s = Closed)"
    and "(status (stream_end s) = Destroyed) = (status s = Destroyed)"
    and "inflight (stream_end s) = inflight s"
    and "buffered (stream_end s) = buffered s"
    and "emitted (stream_end s) = emitted s"
    and "status (stream_end s) \<noteq> Writable"
  by (auto simp add: stream_end_def)

lemma consistent_cleanup:
  assumes "consistent w"
  shows "consistent (snd (cleanup w))"
proof (cases w rule: cleanup_cases)
  case skip
  then show ?thesis
    using assms by (simp add: consistent_def stream_end_consistent)
next
  case (written t)
  note t = updateWavHeaderSizes_None(1) [OF written(3)]
  show ?thesis
    unfolding written(4) using assms written(1) unfolding t
    by (simp add: consistent_def stream_end_consistent)
next
  case (thrown e)
  then show ?thesis using assms by simp
qed

lemma consistent_turn:
  assumes "consistent w"
  shows "consistent (turn w)"
proof (cases "inflight (outStream w)")
  case None
  then show ?thesis
    using assms
    by (cases "status (outStream w)")
      (simp_all add: consistent_def turn_def stream_turn_def fs_close_def)
next
  case (Some c)
  have hw: "headerWritten w" and nc: "status (outStream w) \<noteq> Closed"
    and op: "fd_open (host w)"
    using assms Some by (auto simp add: consistent_def)
  show ?thesis
  proof (cases "fs_write (stream_fd (outStream w)) c (host w)")
    case (Inl e)
    then show ?thesis
      using assms Some hw
      by (cases "status (outStream w)")
        (simp_all add: consistent_def turn_def stream_turn_def)
  next
    case (Inr h')
    then have h': "fd h' = fd (host w)" "fd_open h' = fd_open (host w)"
      by (auto simp add: fs_write_def split: if_splits)
    show ?thesis
      using assms Some hw Inr h'
      by (cases "status (outStream w)")
        (simp_all add: consistent_def turn_def stream_turn_def)
  qed
qed

lemma consistent_step: "consistent w \<Longrightarrow> consistent (snd (step e w))"
  by (cases e)
    (simp_all add: consistent_onAudioData consistent_cleanup consistent_turn,
      simp add: consistent_def)

lemma consistent_run: "consistent w \<Longrightarrow> consistent (run evs w)"
  by (induction evs arbitrary: w) (simp_all add: consistent_step)

lemma consistent_reachable: "consistent (run evs (constructor p d cb))"
  by (rule consistent_run [OF consistent_constructor])

lemma consistent_settle: "consistent w \<Longrightarrow> consistent (settle w)"
  by (simp add: settle_def consistent_turn)

subsection \<open>Turns of the event loop\<close>

lemma turn_keeps_fields:
  "headerWritten (turn w) = headerWritten w"
  "totalDataBytes (turn w) = totalDataBytes w"
  "onAudioCallback (turn w) = onAudioCallback w"
  "wavSampleRate (turn w) = wavSampleRate w"
  "wavBitsPerSample (turn w) = wavBitsPerSample w"
  "wavNumChannels (turn w) = wavNumChannels w"
  "fileDescriptor (turn w) = fileDescriptor w"
  by (simp_all add: turn_def)

lemma settle_keeps_fields:
  "headerWritten (settle w) = headerWritten w"
  "totalDataBytes (settle w) = totalDataBytes w"
  "onAudioCallback (settle w) = onAudioCallback w"
  "wavSampleRate (settle w) = wavSampleRate w"
  "wavBitsPerSample (settle w) = wavBitsPerSample w"
  "wavNumChannels (settle w) = wavNumChannels w"
  "fileDescriptor (settle w) = fileDescriptor w"
  by (simp_all add: settle_def turn_keeps_fields)

lemma turn_at_rest:
  "inflight (outStream w) = None \<Longrightarrow> status (outStream w) = Writable \<Longrightarrow> turn w = w"
  "inflight (outStream w) = None \<Longrightarrow> status (outStream w) = Closed \<Longrightarrow> turn w = w"
  by (simp_all add: turn_def stream_turn_def)

lemma settle_at_rest:
  "inflight (outStream w) = None \<Longrightarrow> status (outStream w) = Writable \<Longrightarrow> settle w = w"
  "inflight (outStream w) = None \<Longrightarrow> status (outStream w) = Closed \<Longrightarrow> settle w = w"
  by (simp_all add: settle_def turn_at_rest)

lemma turn_closing_3:
  assumes "consistent w" "status (outStream w) \<noteq> Writable"
  shows "status (outStream (turn w)) \<noteq> Writable \<and>
         (status (outStream (turn w)) = Ending \<longrightarrow> buffered (outStream (turn w)) = [])"
proof (cases "inflight (outStream w)")
  case None
  then show ?thesis
    using assms
    by (cases "status (outStream w)")
      (simp_all add: consistent_def turn_def stream_turn_def)
next
  case (Some c)
  show ?thesis
    using assms Some
    by (cases "fs_write (stream_fd (outStream w)) c (host w)"; cases "status (outStream w)")
      (simp_all add: consistent_def turn_def stream_turn_def)
qed

lemma turn_closing_2:
  assumes "consistent w" "status (outStream w) \<noteq> Writable"
    and "status (outStream w) = Ending \<longrightarrow> buffered (outStream w) = []"
  shows "status (outStream (turn w)) = Closed \<or>
         status (outStream (turn w)) = Destroyed \<and> inflight (outStream (turn w)) = None"
proof (cases "inflight (outStream w)")
  case None
  then show ?thesis
    using assms
    by (cases "status (outStream w)")
      (simp_all add: consistent_def turn_def stream_turn_def)
next
  case (Some c)
  show ?thesis
    using assms Some
    by (cases "fs_write (stream_fd (outStream w)) c (host w)"; cases "status (outStream w)")
      (simp_all add: consistent_def turn_def stream_turn_def)
qed

lemma turn_closing_1:
  assumes "consistent w"
    and "status (outStream w) = Closed \<or>
         status (outStream w) = Destroyed \<and> inflight (outStream w) = None"
  shows "status (outStream (turn w)) = Closed"
  using assms by (auto simp add: consistent_def turn_def stream_turn_def)

lemma settle_closes:
  assumes "consistent w" "status (outStream w) \<noteq> Writable"
  shows "status (outStream (settle w)) = Closed" and "\<not> fd_open (host (settle w))"
proof -
  note a = turn_closing_3 [OF assms]
  note c1 = consistent_turn [OF assms(1)]
  have b: "status (outStream (turn (turn w))) = Closed \<or>
         status (outStream (turn (turn w))) = Destroyed \<and> inflight (outStream (turn (turn w))) = None"
    using a by (intro turn_closing_2 [OF c1]) simp_all
  note c2 = consistent_turn [OF c1]
  show s: "status (outStream (settle w)) = Closed"
    unfolding settle_def by (rule turn_closing_1 [OF c2 b])
  from consistent_settle [OF assms(1)] s show "\<not> fd_open (host (settle w))"
    by (simp add: consistent_def)
qed

subsection \<open>After a finalize that returned\<close>

lemma cleanup_keeps_fields:
  "headerWritten (snd (cleanup w)) = headerWritten w"
  "totalDataBytes (snd (cleanup w)) = totalDataBytes w"
  "onAudioCallback (snd (cleanup w)) = onAudioCallback w"
  "wavSampleRate (snd (cleanup w)) = wavSampleRate w"
  "wavBitsPerSample (snd (cleanup w)) = wavBitsPerSample w"
  "wavNumChannels (snd (cleanup w)) = wavNumChannels w"
  "fileDescriptor (snd (cleanup w)) = fileDescriptor w"
proof -
  have "headerWritten (snd (cleanup w)) = headerWritten w \<and>
    totalDataBytes (snd (cleanup w)) = totalDataBytes w \<and>
    onAudioCallback (snd (cleanup w)) = onAudioCallback w \<and>
    wavSampleRate (snd (cleanup w)) = wavSampleRate w \<and>
    wavBitsPerSample (snd (cleanup w)) = wavBitsPerSample w \<and>
    wavNumChannels (snd (cleanup w)) = wavNumChannels w \<and>
    fileDescriptor (snd (cleanup w)) = fileDescriptor w"
  proof (cases w rule: cleanup_cases)
    case skip
    then show ?thesis by simp
  next
    case (written t)
    show ?thesis unfolding written(4) updateWavHeaderSizes_None(1) [OF written(3)] by simp
  next
    case (thrown e)
    then show ?thesis by simp
  qed
  then show "headerWritten (snd (cleanup w)) = headerWritten w"
    "totalDataBytes (snd (cleanup w)) = totalDataBytes w"
    "onAudioCallback (snd (cleanup w)) = onAudioCallback w"
    "wavSampleRate (snd (cleanup w)) = wavSampleRate w"
    "wavBitsPerSample (snd (cleanup w)) = wavBitsPerSample w"
    "wavNumChannels (snd (cleanup w)) = wavNumChannels w"
    "fileDescriptor (snd (cleanup w)) = fileDescriptor w"
    by simp_all
qed

lemma cleanup_returned:
  assumes "fst (cleanup w) = None"
  shows "status (outStream (snd (cleanup w))) \<noteq> Writable"
    and "headerWritten w \<Longrightarrow> 0 < totalDataBytes w \<Longrightarrow> totalDataBytes w + 36 \<le> 4294967295"
    and "inflight (outStream (snd (cleanup w))) = inflight (outStream w)"
    and "buffered (outStream (snd (cleanup w))) = buffered (outStream w)"
    and "emitted (outStream (snd (cleanup w))) = emitted (outStream w)"
    and "position (host (snd (cleanup w))) = position (host w)"
    and "fd_open (host (snd (cleanup w))) = fd_open (host w)"
    and "failing (host (snd (cleanup w))) = failing (host w)"
proof -
  have "status (outStream (snd (cleanup w))) \<noteq> Writable \<and>
    (headerWritten w \<and> 0 < totalDataBytes w \<longrightarrow> totalDataBytes w + 36 \<le> 4294967295) \<and>
    inflight (outStream (snd (cleanup w))) = inflight (outStream w) \<and>
    buffered (outStream (snd (cleanup w))) = buffered (outStream w) \<and>
    emitted (outStream (snd (cleanup w))) = emitted (outStream w) \<and>
    position (host (snd (cleanup w))) = position (host w) \<and>
    fd_open (host (snd (cleanup w))) = fd_open (host w) \<and>
    failing (host (snd (cleanup w))) = failing (host w)"
  proof (cases w rule: cleanup_cases)
    case skip
    then show ?thesis by (simp add: stream_end_consistent)
  next
    case (written t)
    note t = updateWavHeaderSizes_None(1) [OF written(3)]
    from updateWavHeaderSizes_None(2) [OF written(3)]
    show ?thesis unfolding written(4) unfolding t by (simp add: stream_end_consistent)
  next
    case (thrown e)
    then show ?thesis using assms by simp
  qed
  then show "status (outStream (snd (cleanup w))) \<noteq> Writable"
    and "headerWritten w \<Longrightarrow> 0 < totalDataBytes w \<Longrightarrow> totalDataBytes w + 36 \<le> 4294967295"
    and "inflight (outStream (snd (cleanup w))) = inflight (outStream w)"
    and "buffered (outStream (snd (cleanup w))) = buffered (outStream w)"
    and "emitted (outStream (snd (cleanup w))) = emitted (outStream w)"
    and "position (host (snd (cleanup w))) = position (host w)"
    and "fd_open (host (snd (cleanup w))) = fd_open (host w)"
    and "failing (host (snd (cleanup w))) = failing (host w)"
    by simp_all
qed

lemma stream_end_not_Writable: "status s \<noteq> Writable \<Longrightarrow> stream_end s = s"
  by (simp add: stream_end_def)

lemma cleanup_closed:
  assumes "\<not> fd_open (host w)" "status (outStream w) \<noteq> Writable"
    and "headerWritten w \<Longrightarrow> 0 < totalDataBytes w \<Longrightarrow> totalDataBytes w + 36 \<le> 4294967295"
  shows "cleanup w =
    (if headerWritten w \<and> 0 < totalDataBytes w then Some EBADF else None, w)"
proof (cases "headerWritten w \<and> 0 < totalDataBytes w")
  case True
  then have a: "headerWritten w" "0 < totalDataBytes w" by simp_all
  have "updateWavHeaderSizes w = (Some EBADF, w)"
    by (rule updateWavHeaderSizes_closed [OF assms(3) [OF a]]) (simp add: assms(1))
  from cleanup_update_fail [OF a this] True show ?thesis by simp
next
  case False
  from cleanup_skip [OF this] stream_end_not_Writable [OF assms(2)] False
  show ?thesis by simp
qed

subsection \<open>The callback never changes\<close>

lemma onAudioData_keeps_callback:
  "onAudioCallback (snd (onAudioData f w)) = onAudioCallback w"
proof (cases "headerWritten w")
  case True
  then show ?thesis by (simp add: onAudioData_after_header(1))
next
  case False
  let ?w1 = "w\<lparr>wavSampleRate := sampleRate f, wavBitsPerSample := bitsPerSample f,
              wavNumChannels := channelCount f\<rparr>"
  obtain r t where rt: "writeWavHeaderPlaceholder ?w1 = (r, t)"
    by (cases "writeWavHeaderPlaceholder ?w1")
  show ?thesis
  proof (cases r)
    case (Some e)
    with rt have "onAudioData f w = (Some e, t)" and "t = ?w1"
      using onAudioData_first_fail [OF False] writeWavHeaderPlaceholder_Some by blast+
    then show ?thesis by simp
  next
    case None
    from writeWavHeaderPlaceholder_None [OF rt [unfolded None]] obtain header where
      t: "t = ?w1\<lparr>host := (host ?w1)\<lparr>content := store_at header 0 (content (host ?w1))\<rparr>\<rparr>"
      by blast
    show ?thesis
      unfolding onAudioData_first_ok [OF False rt [unfolded None]]
      by (simp add: onAudioData_after_header(1) t)
  qed
qed

lemma callback_run: "onAudioCallback (run evs (constructor p d cb)) = cb"
proof -
  have "onAudioCallback (run evs w) = onAudioCallback w" for w
  proof (induction evs arbitrary: w)
    case Nil
    then show ?case by simp
  next
    case (Cons e evs)
    have "onAudioCallback (snd (step e w)) = onAudioCallback w"
      by (cases e)
        (simp_all add: onAudioData_keeps_callback cleanup_keeps_fields turn_keeps_fields)
    with Cons.IH [of "snd (step e w)"] show ?case by simp
  qed
  then show ?thesis by (simp add: constructor_def)
qed

section \<open>Finalize and what follows it\<close>

text \<open>
  Claim C5. Whenever \<open>headerWritten\<close> is false (no frame was ingested, or no
  header write has succeeded), \<^verbatim>\<open>cleanup\<close> writes nothing, ends the stream
  and returns; the file has zero bytes, and when the event loop has run the
  descriptor is closed and the file still has zero bytes.
\<close>

theorem finalize_without_header:
  assumes "\<not> headerWritten (run evs (constructor p d cb))"
  shows "fst (cleanup (run evs (constructor p d cb))) = None \<and>
         content (host (snd (cleanup (run evs (constructor p d cb))))) = [] \<and>
         status (outStream (snd (cleanup (run evs (constructor p d cb))))) \<noteq> Writable \<and>
         content (host (settle (snd (cleanup (run evs (constructor p d cb)))))) = [] \<and>
         \<not> fd_open (host (settle (snd (cleanup (run evs (constructor p d cb))))))"
proof -
  let ?w = "run evs (constructor p d cb)"
  have c: "consistent ?w" by (rule consistent_reachable)
  then have e: "content (host ?w) = []" and i: "inflight (outStream ?w) = None"
    using assms by (simp_all add: consistent_def)
  have "\<not> (headerWritten ?w \<and> 0 < totalDataBytes ?w)" using assms by simp
  note cl = cleanup_skip [OF this]
  have one: "fst (cleanup ?w) = None" unfolding cl by simp
  have e1: "content (host (snd (cleanup ?w))) = []" unfolding cl using e by simp
  have "inflight (outStream (snd (cleanup ?w))) = None"
    using cleanup_returned(3) [OF one] i by simp
  from settle_idle(1) [OF this] e1
  have e2: "content (host (settle (snd (cleanup ?w)))) = []" by simp
  note s = cleanup_returned(1) [OF one]
  from settle_closes(2) [OF consistent_cleanup [OF c] s] one e1 e2 s
  show ?thesis by blast
qed

theorem finalize_without_header_witness:
  "fst (cleanup (constructor ''/tmp/speaker_audio.wav'' 3 None)) = None \<and>
   content (host (snd (cleanup (constructor ''/tmp/speaker_audio.wav'' 3 None)))) = [] \<and>
   content (host (settle (snd (cleanup (constructor ''/tmp/speaker_audio.wav'' 3 None))))) = [] \<and>
   \<not> fd_open (host (settle (snd (cleanup (constructor ''/tmp/speaker_audio.wav'' 3 None)))))"
proof -
  have "\<not> headerWritten (run [] (constructor ''/tmp/speaker_audio.wav'' 3 None))"
    by (simp add: constructor_def)
  from finalize_without_header [OF this] show ?thesis by simp
qed

text \<open>
  Claim C9 (amended). On every path on which \<^verbatim>\<open>cleanup\<close> returns, the stream
  has been ended, and the descriptor is closed when the event loop has run.
  \<^verbatim>\<open>cleanup\<close> throws only out of the write-back of the sizes; then
  \<^verbatim>\<open>outStream.end\<close> is not reached and the instance and the descriptor are
  left exactly as they were.
\<close>

theorem finalize_closes_when_it_returns:
  "(fst (cleanup (run evs (constructor p d cb))) = None \<longrightarrow>
      status (outStream (snd (cleanup (run evs (constructor p d cb))))) \<noteq> Writable \<and>
      \<not> fd_open (host (settle (snd (cleanup (run evs (constructor p d cb))))))) \<and>
   (fst (cleanup (run evs (constructor p d cb))) \<noteq> None \<longrightarrow>
      headerWritten (run evs (constructor p d cb)) \<and>
      0 < totalDataBytes (run evs (constructor p d cb)) \<and>
      snd (cleanup (run evs (constructor p d cb))) = run evs (constructor p d cb))"
proof -
  let ?w = "run evs (constructor p d cb)"
  have c: "consistent ?w" by (rule consistent_reachable)
  have a: "fst (cleanup ?w) = None \<Longrightarrow>
      status (outStream (snd (cleanup ?w))) \<noteq> Writable \<and>
      \<not> fd_open (host (settle (snd (cleanup ?w))))"
    using settle_closes(2) [OF consistent_cleanup [OF c]] cleanup_returned(1) by blast
  have b: "fst (cleanup ?w) \<noteq> None \<Longrightarrow>
      headerWritten ?w \<and> 0 < totalDataBytes ?w \<and> snd (cleanup ?w) = ?w"
    by (cases ?w rule: cleanup_cases) simp_all
  from a b show ?thesis by blast
qed

theorem finalize_closes_when_it_returns_witness:
  "fst (cleanup (run [Ingest (frame_of 48000 16 2 [1, 2])]
         (constructor ''/tmp/speaker_audio.wav'' 3 None))) = None \<and>
   \<not> fd_open (host (settle (snd (cleanup (run [Ingest (frame_of 48000 16 2 [1, 2])]
         (constructor ''/tmp/speaker_audio.wav'' 3 None))))))"
proof -
  let ?f = "frame_of 48000 16 2 [1, 2]"
  let ?init = "constructor ''/tmp/speaker_audio.wav'' 3 None"
  have h: "headerWritten (snd (onAudioData ?f ?init))"
    by (rule first_ingest_header_written) (simp add: header_fits_def frame_of_def)
  from first_ingest [OF h] obtain header where
    r: "recording header (payload ?f) (run [Ingest ?f] ?init)" by auto
  have l: "length (payload ?f) = 2" by (simp add: payload_def Buffer_from_def frame_of_def)
  have "fst (cleanup (run [Ingest ?f] ?init)) = None"
    using cleanup_recording [OF r] l by simp
  with finalize_closes_when_it_returns [of "[Ingest ?f]" "''/tmp/speaker_audio.wav''" 3 None]
  show ?thesis by simp
qed

text \<open>
  The claim as stated fails when the host refuses the write-back: one frame of
  two bytes is ingested and written, the host starts to fail, and
  \<^verbatim>\<open>cleanup\<close> throws the error of \<^verbatim>\<open>fs.writeSync\<close>. The descriptor is
  open after the call and stays open when the event loop has run.
\<close>

theorem finalize_leaves_descriptor_open:
  "fst (cleanup (run [Ingest (frame_of 48000 16 2 [1, 2]), Tick, HostFailing True]
         (constructor ''/tmp/speaker_audio.wav'' 3 None))) = Some EIO \<and>
   fd_open (host (snd (cleanup (run [Ingest (frame_of 48000 16 2 [1, 2]), Tick, HostFailing True]
         (constructor ''/tmp/speaker_audio.wav'' 3 None))))) \<and>
   fd_open (host (settle (snd (cleanup
     (run [Ingest (frame_of 48000 16 2 [1, 2]), Tick, HostFailing True]
         (constructor ''/tmp/speaker_audio.wav'' 3 None))))))"
proof -
  let ?f = "frame_of 48000 16 2 [1, 2]"
  let ?init = "constructor ''/tmp/speaker_audio.wav'' 3 None"
  let ?w1 = "run [Tick] (snd (onAudioData ?f ?init))"
  let ?w2 = "?w1\<lparr>host := (host ?w1)\<lparr>failing := True\<rparr>\<rparr>"
  have h: "headerWritten (snd (onAudioData ?f ?init))"
    by (rule first_ingest_header_written) (simp add: header_fits_def frame_of_def)
  from first_ingest [OF h] obtain header where
    r1: "recording header (payload ?f) (snd (onAudioData ?f ?init))" by auto
  have r: "recording header (payload ?f) ?w1"
    using run_quiet_recording [OF r1, of "[Tick]"] by simp
  have i: "inflight (outStream ?w1) = None"
    using turn_recording_queue(2) [OF r1] first_ingest_buffered [of ?f] by simp
  have l: "length (payload ?f) = 2" by (simp add: payload_def Buffer_from_def frame_of_def)
  have a: "headerWritten ?w2" "0 < totalDataBytes ?w2" "totalDataBytes ?w2 + 36 \<le> 4294967295"
    "fd_open (host ?w2)" "fileDescriptor ?w2 = fd (host ?w2)" "failing (host ?w2)"
    "status (outStream ?w2) = Writable" "inflight (outStream ?w2) = None"
    using r l i by (simp_all add: recording_def)
  have c: "cleanup ?w2 = (Some EIO, ?w2)"
    by (rule cleanup_update_fail [OF a(1) a(2) updateWavHeaderSizes_failing [OF a(3) a(4) a(5) a(6)]])
  have s: "settle ?w2 = ?w2" by (rule settle_at_rest(1) [OF a(8) a(7)])
  have e: "run [Ingest ?f, Tick, HostFailing True] ?init = ?w2" by simp
  show ?thesis unfolding e c using a(4) s by simp
qed

lemma store_at_same:
  assumes "pos + length bs \<le> length c" "field pos (length bs) c = bs"
  shows "store_at bs pos c = c"
proof -
  have "drop pos c = take (length bs) (drop pos c) @ drop (length bs) (drop pos c)"
    by (simp only: append_take_drop_id)
  then have "drop pos c = bs @ drop (pos + length bs) c"
    using assms(2) by (simp add: field_def add.commute)
  then have "take pos c @ bs @ drop (pos + length bs) c = c"
    using append_take_drop_id [of pos c] by simp
  then show ?thesis using assms(1) by (simp add: store_at_def)
qed

lemma field_store_at_written:
  "field pos (length bs) (store_at bs pos old) = bs"
  by (simp add: store_at_def field_def)

lemma write_back_again:
  assumes "length a = 4" "length b = 4"
  shows "store_at a 40 (store_at b 4 (store_at a 40 (store_at b 4 c))) =
         store_at a 40 (store_at b 4 c)"
proof -
  let ?y = "store_at b 4 c"
  let ?x = "store_at a 40 ?y"
  have ne: "a \<noteq> []" "b \<noteq> []" using assms by auto
  have ly: "8 \<le> length ?y" using assms ne by (simp add: length_store_at)
  have lx: "44 \<le> length ?x" using assms ne by (simp add: length_store_at)
  have "field 4 4 ?x = field 4 4 ?y"
    using ly by (simp add: field_store_at_before)
  also have "\<dots> = b" using field_store_at_written [of 4 b c] assms by simp
  finally have "store_at b 4 ?x = ?x"
    using lx assms by (intro store_at_same) simp_all
  moreover have "store_at a 40 ?x = ?x"
    using lx assms field_store_at_written [of 40 a ?y] by (intro store_at_same) simp_all
  ultimately show ?thesis by simp
qed

lemma stream_end_twice: "stream_end (stream_end s) = stream_end s"
  by (simp add: stream_end_def)

lemma cleanup_same_tick:
  assumes "fst (cleanup w) = None"
  shows "cleanup (snd (cleanup w)) = (None, snd (cleanup w))"
proof (cases w rule: cleanup_cases)
  case skip
  have "\<not> (headerWritten (snd (cleanup w)) \<and> 0 < totalDataBytes (snd (cleanup w)))"
    using skip(1) by (simp add: cleanup_keeps_fields)
  from cleanup_skip [OF this] show ?thesis
    unfolding skip(2) by (simp add: stream_end_twice)
next
  case (written t)
  note u = updateWavHeaderSizes_None [OF written(3)]
  let ?u = "t\<lparr>outStream := stream_end (outStream t)\<rparr>"
  have a: "headerWritten ?u" "0 < totalDataBytes ?u" "fd_open (host ?u)"
    "fileDescriptor ?u = fd (host ?u)" "\<not> failing (host ?u)"
    "totalDataBytes ?u + 36 \<le> 4294967295" "totalDataBytes ?u = totalDataBytes w"
    using written(1,2) u(2-5) unfolding u(1) by simp_all
  have "updateWavHeaderSizes ?u = (None, ?u)"
    unfolding updateWavHeaderSizes_ok [OF a(3) a(4) a(5) a(6)]
    unfolding u(1) by (simp add: write_back_again length_le_bytes)
  from cleanup_update_ok [OF a(1) a(2) this] show ?thesis
    unfolding written(4) by (simp add: stream_end_twice)
next
  case (thrown e)
  then show ?thesis using assms by simp
qed

text \<open>
  Claim C2 (amended). After a \<^verbatim>\<open>cleanup\<close> that returned, a second
  \<^verbatim>\<open>cleanup\<close> in the same turn of the event loop finds the descriptor still
  open: it writes the same sizes again, returns, and leaves the instance and
  the file exactly as the first left them. A second \<^verbatim>\<open>cleanup\<close> after the
  event loop has closed the file changes nothing either; it returns when no
  header had been written or no payload byte counted, and otherwise it runs the
  write-back on the closed descriptor and throws \<^verbatim>\<open>EBADF\<close>. There is no
  flag that records a finalize.
\<close>

theorem second_finalize:
  assumes "fst (cleanup (run evs (constructor p d cb))) = None"
  shows "cleanup (snd (cleanup (run evs (constructor p d cb)))) =
           (None, snd (cleanup (run evs (constructor p d cb)))) \<and>
         cleanup (settle (snd (cleanup (run evs (constructor p d cb))))) =
           (if headerWritten (run evs (constructor p d cb)) \<and>
               0 < totalDataBytes (run evs (constructor p d cb))
            then Some EBADF else None,
            settle (snd (cleanup (run evs (constructor p d cb)))))"
proof -
  let ?w = "run evs (constructor p d cb)"
  let ?u = "settle (snd (cleanup ?w))"
  have c: "consistent (snd (cleanup ?w))"
    by (rule consistent_cleanup [OF consistent_reachable])
  note r = cleanup_returned [OF assms]
  note s = settle_closes [OF c r(1)]
  have "status (outStream ?u) \<noteq> Writable" using s(1) by simp
  from cleanup_closed [OF s(2) this]
  have "cleanup ?u =
    (if headerWritten ?u \<and> 0 < totalDataBytes ?u then Some EBADF else None, ?u)"
    using r(2) by (simp add: cleanup_keeps_fields settle_keeps_fields)
  then show ?thesis
    using cleanup_same_tick [OF assms]
    by (simp add: cleanup_keeps_fields settle_keeps_fields)
qed

theorem second_finalize_witness:
  "cleanup (snd (cleanup (run [Ingest (frame_of 48000 16 2 [1, 2])]
         (constructor ''/tmp/speaker_audio.wav'' 3 None)))) =
     (None, snd (cleanup (run [Ingest (frame_of 48000 16 2 [1, 2])]
         (constructor ''/tmp/speaker_audio.wav'' 3 None)))) \<and>
   cleanup (settle (snd (cleanup (run [Ingest (frame_of 48000 16 2 [1, 2])]
         (constructor ''/tmp/speaker_audio.wav'' 3 None))))) =
     (Some EBADF, settle (snd (cleanup (run [Ingest (frame_of 48000 16 2 [1, 2])]
         (constructor ''/tmp/speaker_audio.wav'' 3 None)))))"
proof -
  let ?f = "frame_of 48000 16 2 [1, 2]"
  let ?init = "constructor ''/tmp/speaker_audio.wav'' 3 None"
  let ?w = "run [Ingest ?f] ?init"
  have h: "headerWritten (snd (onAudioData ?f ?init))"
    by (rule first_ingest_header_written) (simp add: header_fits_def frame_of_def)
  from first_ingest [OF h] obtain header where
    r: "recording header (payload ?f) ?w" by auto
  have l: "length (payload ?f) = 2" by (simp add: payload_def Buffer_from_def frame_of_def)
  have one: "fst (cleanup ?w) = None"
    using cleanup_recording [OF r] l by simp
  have a: "headerWritten ?w" "totalDataBytes ?w = 2" using r l by (simp_all add: recording_def)
  from second_finalize [OF one] a show ?thesis by simp
qed

text \<open>
  The claim as stated fails once payload has been written and the file closed:
  after one frame of two bytes the first \<^verbatim>\<open>cleanup\<close> returns, the event loop
  runs, and the second \<^verbatim>\<open>cleanup\<close> does not return but throws \<^verbatim>\<open>EBADF\<close>.
\<close>

theorem second_finalize_throws:
  "fst (cleanup (run [Ingest (frame_of 48000 16 2 [1, 2]), Tick]
         (constructor ''/tmp/speaker_audio.wav'' 3 None))) = None \<and>
   fst (cleanup (settle (snd (cleanup (run [Ingest (frame_of 48000 16 2 [1, 2]), Tick]
         (constructor ''/tmp/speaker_audio.wav'' 3 None)))))) = Some EBADF"
proof -
  let ?f = "frame_of 48000 16 2 [1, 2]"
  let ?init = "constructor ''/tmp/speaker_audio.wav'' 3 None"
  let ?w = "run [Tick] (snd (onAudioData ?f ?init))"
  let ?u = "settle (snd (cleanup ?w))"
  have h: "headerWritten (snd (onAudioData ?f ?init))"
    by (rule first_ingest_header_written) (simp add: header_fits_def frame_of_def)
  from first_ingest [OF h] obtain header where
    r1: "recording header (payload ?f) (snd (onAudioData ?f ?init))" by auto
  have r: "recording header (payload ?f) ?w"
    using run_quiet_recording [OF r1, of "[Tick]"] by simp
  have l: "length (payload ?f) = 2" by (simp add: payload_def Buffer_from_def frame_of_def)
  have one: "fst (cleanup ?w) = None"
    using cleanup_recording [OF r] l by simp
  have a: "headerWritten ?u" "totalDataBytes ?u = 2"
    using r l by (simp_all add: recording_def cleanup_keeps_fields settle_keeps_fields)
  have "?w = run [Ingest ?f, Tick] ?init" by simp
  then have c: "consistent (snd (cleanup ?w))"
    using consistent_cleanup [OF consistent_reachable] by metis
  note s = settle_closes [OF c cleanup_returned(1) [OF one]]
  have "status (outStream ?u) \<noteq> Writable" using s(1) by simp
  from cleanup_closed [OF s(2) this]
  have "cleanup ?u = (Some EBADF, ?u)" using a by simp
  with one show ?thesis by simp
qed

lemma stream_write_ended:
  assumes "status s \<noteq> Writable"
  shows "emitted (stream_write chunk s) =
           emitted s @ (if status s = Ending then [ERR_STREAM_WRITE_AFTER_END] else [])"
    and "status (stream_write chunk s) \<noteq> Writable"
    and "status s = Closed \<Longrightarrow> stream_write chunk s = s"
  using assms by (cases "status s"; simp add: stream_write_def)+

lemma onAudioData_ended:
  assumes "headerWritten w" "status (outStream w) \<noteq> Writable"
  shows "fst (onAudioData f w) =
           (case onAudioCallback w of None \<Rightarrow> None | Some cb \<Rightarrow> cb (samples f) (userId f))"
    and "totalDataBytes (snd (onAudioData f w)) = totalDataBytes w + length (payload f)"
    and "host (snd (onAudioData f w)) = host w"
    and "emitted (outStream (snd (onAudioData f w))) =
           emitted (outStream w) @
           (if status (outStream w) = Ending then [ERR_STREAM_WRITE_AFTER_END] else [])"
    and "status (outStream w) = Closed \<Longrightarrow> outStream (snd (onAudioData f w)) = outStream w"
  using stream_write_ended [OF assms(2), of "payload f"]
  by (simp_all add: onAudioData_after_header [OF assms(1)])

lemma writeWavHeaderPlaceholder_closed:
  assumes "\<not> fd_open (host w)"
  shows "writeWavHeaderPlaceholder w = (Some ERR_OUT_OF_RANGE, w) \<or>
         writeWavHeaderPlaceholder w = (Some EBADF, w)"
proof (cases "wavHeader w")
  case (Inl e)
  with wavHeader_Inl [OF Inl] show ?thesis by (simp add: writeWavHeaderPlaceholder_def)
next
  case (Inr header)
  with assms show ?thesis by (simp add: writeWavHeaderPlaceholder_def fs_writeSync_def)
qed

lemma onAudioData_closed:
  assumes "\<not> headerWritten w" "\<not> fd_open (host w)"
  shows "fst (onAudioData f w) = Some ERR_OUT_OF_RANGE \<or> fst (onAudioData f w) = Some EBADF"
    and "totalDataBytes (snd (onAudioData f w)) = totalDataBytes w"
    and "host (snd (onAudioData f w)) = host w"
    and "outStream (snd (onAudioData f w)) = outStream w"
    and "\<not> headerWritten (snd (onAudioData f w))"
proof -
  let ?w1 = "w\<lparr>wavSampleRate := sampleRate f, wavBitsPerSample := bitsPerSample f,
              wavNumChannels := channelCount f\<rparr>"
  have c: "\<not> fd_open (host ?w1)" using assms(2) by simp
  have first: "onAudioData f w = (Some ERR_OUT_OF_RANGE, ?w1) \<or>
      onAudioData f w = (Some EBADF, ?w1)"
    using writeWavHeaderPlaceholder_closed [OF c] onAudioData_first_fail [OF assms(1), of f]
    by auto
  show "fst (onAudioData f w) = Some ERR_OUT_OF_RANGE \<or> fst (onAudioData f w) = Some EBADF"
    and "totalDataBytes (snd (onAudioData f w)) = totalDataBytes w"
    and "host (snd (onAudioData f w)) = host w"
    and "outStream (snd (onAudioData f w)) = outStream w"
    and "\<not> headerWritten (snd (onAudioData f w))"
    using first assms(1) by auto
qed

lemma onAudioData_ended_first:
  assumes "\<not> headerWritten w" "consistent w" "fd_open (host w)" "\<not> failing (host w)"
    and "header_fits (w\<lparr>wavSampleRate := sampleRate f, wavBitsPerSample := bitsPerSample f,
              wavNumChannels := channelCount f\<rparr>)"
  shows "headerWritten (snd (onAudioData f w))"
    and "length (content (host (snd (onAudioData f w)))) = 44"
    and "totalDataBytes (snd (onAudioData f w)) = length (payload f)"
    and "fst (onAudioData f w) =
           (case onAudioCallback w of None \<Rightarrow> None | Some cb \<Rightarrow> cb (samples f) (userId f))"
proof -
  let ?w1 = "w\<lparr>wavSampleRate := sampleRate f, wavBitsPerSample := bitsPerSample f,
              wavNumChannels := channelCount f\<rparr>"
  from wavHeader_fits [OF assms(5)] obtain header where h: "wavHeader ?w1 = Inr header" by blast
  have len: "length header = 44" by (rule wavHeader_length [OF h])
  then have ne: "header \<noteq> []" by auto
  have e: "content (host w) = []" "totalDataBytes w = 0" "fileDescriptor w = fd (host w)"
    using assms(1,2) by (simp_all add: consistent_def)
  let ?t = "?w1\<lparr>host := (host ?w1)\<lparr>content := store_at header 0 (content (host ?w1))\<rparr>\<rparr>"
  have "writeWavHeaderPlaceholder ?w1 = (None, ?t)"
    by (rule writeWavHeaderPlaceholder_ok [OF h]) (simp_all add: assms(3,4) e(3))
  note o = onAudioData_first_ok [OF assms(1) this]
  have hw: "headerWritten (?t\<lparr>headerWritten := True\<rparr>)" by simp
  show "headerWritten (snd (onAudioData f w))"
    and "length (content (host (snd (onAudioData f w)))) = 44"
    and "totalDataBytes (snd (onAudioData f w)) = length (payload f)"
    and "fst (onAudioData f w) =
           (case onAudioCallback w of None \<Rightarrow> None | Some cb \<Rightarrow> cb (samples f) (userId f))"
    unfolding o onAudioData_after_header [OF hw]
    using e len ne by (simp_all add: store_at_empty)
qed

text \<open>
  Claim C3 (amended). After a \<^verbatim>\<open>cleanup\<close> that returned, \<^verbatim>\<open>onAudioData\<close>
  is not refused by any state check. If a header had been written, the call
  returns (or passes on what the callback throws) and \<open>totalDataBytes\<close> grows
  by the payload's length, in the same turn of the event loop and after the
  file has been closed; the call itself writes nothing to the file; while the
  stream is still ending, the write after \<^verbatim>\<open>end()\<close> raises the stream's
  \<^verbatim>\<open>'error'\<close> event, and once the stream is closed the chunk is dropped
  without a trace. If no header had been written and the file has been closed,
  the call throws out of the header write, \<^verbatim>\<open>ERR_OUT_OF_RANGE\<close> or
  \<^verbatim>\<open>EBADF\<close>, and counter and file are unchanged. If no header had been
  written and the call comes in the same turn as \<^verbatim>\<open>cleanup\<close>, with the
  descriptor still open, the host not failing and a format that fits the
  header, the call writes the 44-byte header into the finalized file, sets
  \<open>headerWritten\<close> and counts the payload.
\<close>

theorem ingest_after_finalize:
  assumes "fst (cleanup (run evs (constructor p d cb))) = None"
  shows "(headerWritten (run evs (constructor p d cb)) \<longrightarrow>
            fst (onAudioData f (snd (cleanup (run evs (constructor p d cb))))) =
              (case cb of None \<Rightarrow> None | Some c \<Rightarrow> c (samples f) (userId f)) \<and>
            totalDataBytes (snd (onAudioData f (snd (cleanup (run evs (constructor p d cb))))))
              = totalDataBytes (run evs (constructor p d cb)) + length (payload f) \<and>
            host (snd (onAudioData f (snd (cleanup (run evs (constructor p d cb))))))
              = host (snd (cleanup (run evs (constructor p d cb)))) \<and>
            emitted (outStream (snd (onAudioData f (snd (cleanup (run evs (constructor p d cb)))))))
              = emitted (outStream (run evs (constructor p d cb))) @
                (if status (outStream (snd (cleanup (run evs (constructor p d cb))))) = Ending
                 then [ERR_STREAM_WRITE_AFTER_END] else []) \<and>
            fst (onAudioData f (settle (snd (cleanup (run evs (constructor p d cb)))))) =
              (case cb of None \<Rightarrow> None | Some c \<Rightarrow> c (samples f) (userId f)) \<and>
            totalDataBytes (snd (onAudioData f
                (settle (snd (cleanup (run evs (constructor p d cb)))))))
              = totalDataBytes (run evs (constructor p d cb)) + length (payload f) \<and>
            host (snd (onAudioData f (settle (snd (cleanup (run evs (constructor p d cb)))))))
              = host (settle (snd (cleanup (run evs (constructor p d cb))))) \<and>
            outStream (snd (onAudioData f (settle (snd (cleanup (run evs (constructor p d cb)))))))
              = outStream (settle (snd (cleanup (run evs (constructor p d cb)))))) \<and>
         (\<not> headerWritten (run evs (constructor p d cb)) \<longrightarrow>
            (fst (onAudioData f (settle (snd (cleanup (run evs (constructor p d cb)))))) =
               Some ERR_OUT_OF_RANGE \<or>
             fst (onAudioData f (settle (snd (cleanup (run evs (constructor p d cb)))))) =
               Some EBADF) \<and>
            totalDataBytes (snd (onAudioData f
                (settle (snd (cleanup (run evs (constructor p d cb)))))))
              = totalDataBytes (run evs (constructor p d cb)) \<and>
            host (snd (onAudioData f (settle (snd (cleanup (run evs (constructor p d cb)))))))
              = host (settle (snd (cleanup (run evs (constructor p d cb))))) \<and>
            (fd_open (host (run evs (constructor p d cb))) \<and>
             \<not> failing (host (run evs (constructor p d cb))) \<and>
             header_fits ((run evs (constructor p d cb))\<lparr>wavSampleRate := sampleRate f,
                wavBitsPerSample := bitsPerSample f, wavNumChannels := channelCount f\<rparr>) \<longrightarrow>
              fst (onAudioData f (snd (cleanup (run evs (constructor p d cb))))) =
                (case cb of None \<Rightarrow> None | Some c \<Rightarrow> c (samples f) (userId f)) \<and>
              headerWritten (snd (onAudioData f (snd (cleanup (run evs (constructor p d cb)))))) \<and>
              length (content (host (snd (onAudioData f
                (snd (cleanup (run evs (constructor p d cb)))))))) = 44 \<and>
              totalDataBytes (snd (onAudioData f (snd (cleanup (run evs (constructor p d cb))))))
                = length (payload f)))"
proof -
  let ?w = "run evs (constructor p d cb)"
  let ?u = "snd (cleanup ?w)"
  let ?v = "settle ?u"
  have cw: "consistent ?w" by (rule consistent_reachable)
  have cu: "consistent ?u" by (rule consistent_cleanup [OF cw])
  note r = cleanup_returned [OF assms]
  note s = settle_closes [OF cu r(1)]
  have sv: "status (outStream ?v) \<noteq> Writable" using s(1) by simp
  have cbu: "onAudioCallback ?u = cb" "onAudioCallback ?v = cb"
    by (simp_all add: cleanup_keeps_fields settle_keeps_fields callback_run)
  have with_header: ?thesis if hw: "headerWritten ?w"
  proof -
    have hu: "headerWritten ?u" and hv: "headerWritten ?v"
      using hw by (simp_all add: cleanup_keeps_fields settle_keeps_fields)
    note a = onAudioData_ended [OF hu r(1), of f]
    note b = onAudioData_ended [OF hv sv, of f]
    from a(1-4) b(1-3) b(5) [OF s(1)] hw show ?thesis
      unfolding cbu r(5)
      by (simp add: cleanup_keeps_fields settle_keeps_fields)
  qed
  have without_header: ?thesis if nh: "\<not> headerWritten ?w"
  proof -
    have nu: "\<not> headerWritten ?u" and nv: "\<not> headerWritten ?v"
      using nh by (simp_all add: cleanup_keeps_fields settle_keeps_fields)
    note a = onAudioData_closed [OF nv s(2), of f]
    have late: "(fst (onAudioData f ?v) = Some ERR_OUT_OF_RANGE \<or>
        fst (onAudioData f ?v) = Some EBADF) \<and>
        totalDataBytes (snd (onAudioData f ?v)) = totalDataBytes ?w \<and>
        host (snd (onAudioData f ?v)) = host ?v"
      using a(1-3) by (simp add: cleanup_keeps_fields settle_keeps_fields)
    have early: "fst (onAudioData f ?u) =
          (case cb of None \<Rightarrow> None | Some c \<Rightarrow> c (samples f) (userId f)) \<and>
        headerWritten (snd (onAudioData f ?u)) \<and>
        length (content (host (snd (onAudioData f ?u)))) = 44 \<and>
        totalDataBytes (snd (onAudioData f ?u)) = length (payload f)"
      if o: "fd_open (host ?w)" "\<not> failing (host ?w)"
        "header_fits (?w\<lparr>wavSampleRate := sampleRate f,
                wavBitsPerSample := bitsPerSample f, wavNumChannels := channelCount f\<rparr>)"
    proof -
      have "header_fits (?u\<lparr>wavSampleRate := sampleRate f,
                wavBitsPerSample := bitsPerSample f, wavNumChannels := channelCount f\<rparr>)"
        using o(3) by (simp add: header_fits_def)
      from onAudioData_ended_first [OF nu cu _ _ this] o(1,2) r(7,8)
      show ?thesis unfolding cbu by simp
    qed
    from late early nh show ?thesis by blast
  qed
  from with_header without_header show ?thesis by blast
qed

theorem ingest_after_finalize_witness:
  "fst (onAudioData (frame_of 48000 16 2 [3, 4])
      (snd (cleanup (run [Ingest (frame_of 48000 16 2 [1, 2])]
         (constructor ''/tmp/speaker_audio.wav'' 3 None))))) = None \<and>
   totalDataBytes (snd (onAudioData (frame_of 48000 16 2 [3, 4])
      (snd (cleanup (run [Ingest (frame_of 48000 16 2 [1, 2])]
         (constructor ''/tmp/speaker_audio.wav'' 3 None)))))) = 4 \<and>
   host (snd (onAudioData (frame_of 48000 16 2 [3, 4])
      (snd (cleanup (run [Ingest (frame_of 48000 16 2 [1, 2])]
         (constructor ''/tmp/speaker_audio.wav'' 3 None)))))) =
   host (snd (cleanup (run [Ingest (frame_of 48000 16 2 [1, 2])]
         (constructor ''/tmp/speaker_audio.wav'' 3 None)))) \<and>
   totalDataBytes (snd (onAudioData (frame_of 48000 16 2 [3, 4])
      (settle (snd (cleanup (run [Ingest (frame_of 48000 16 2 [1, 2])]
         (constructor ''/tmp/speaker_audio.wav'' 3 None))))))) = 4 \<and>
   headerWritten (snd (onAudioData (frame_of 48000 16 2 [3, 4])
      (snd (cleanup (constructor ''/tmp/speaker_audio.wav'' 3 None))))) \<and>
   length (content (host (snd (onAudioData (frame_of 48000 16 2 [3, 4])
      (snd (cleanup (constructor ''/tmp/speaker_audio.wav'' 3 None))))))) = 44 \<and>
   totalDataBytes (snd (onAudioData (frame_of 48000 16 2 [3, 4])
      (snd (cleanup (constructor ''/tmp/speaker_audio.wav'' 3 None))))) = 2"
proof -
  let ?f = "frame_of 48000 16 2 [1, 2]"
  let ?g = "frame_of 48000 16 2 [3, 4]"
  let ?init = "constructor ''/tmp/speaker_audio.wav'' 3 None"
  let ?w = "run [Ingest ?f] ?init"
  have h: "headerWritten (snd (onAudioData ?f ?init))"
    by (rule first_ingest_header_written) (simp add: header_fits_def frame_of_def)
  from first_ingest [OF h] obtain header where
    r: "recording header (payload ?f) ?w" by auto
  have l: "length (payload ?f) = 2" "length (payload ?g) = 2"
    by (simp_all add: payload_def Buffer_from_def frame_of_def)
  have one: "fst (cleanup ?w) = None"
    using cleanup_recording [OF r] l by simp
  have a: "headerWritten ?w" "totalDataBytes ?w = 2" using r l by (simp_all add: recording_def)
  have first: "fst (onAudioData ?g (snd (cleanup ?w))) = None \<and>
    totalDataBytes (snd (onAudioData ?g (snd (cleanup ?w)))) = 4 \<and>
    host (snd (onAudioData ?g (snd (cleanup ?w)))) = host (snd (cleanup ?w)) \<and>
    totalDataBytes (snd (onAudioData ?g (settle (snd (cleanup ?w))))) = 4"
    using ingest_after_finalize [OF one, of ?g] a l by simp
  have none: "fst (cleanup (run [] ?init)) = None"
    by (simp add: cleanup_skip constructor_def)
  have b: "\<not> headerWritten (run [] ?init)" "fd_open (host (run [] ?init))"
    "\<not> failing (host (run [] ?init))"
    "header_fits ((run [] ?init)\<lparr>wavSampleRate := sampleRate ?g,
        wavBitsPerSample := bitsPerSample ?g, wavNumChannels := channelCount ?g\<rparr>)"
    by (simp_all add: constructor_def fs_openSync_def header_fits_def frame_of_def)
  have "headerWritten (snd (onAudioData ?g (snd (cleanup (run [] ?init))))) \<and>
    length (content (host (snd (onAudioData ?g (snd (cleanup (run [] ?init))))))) = 44 \<and>
    totalDataBytes (snd (onAudioData ?g (snd (cleanup (run [] ?init))))) = length (payload ?g)"
    using ingest_after_finalize [OF none, of ?g] b by blast
  then have second: "headerWritten (snd (onAudioData ?g (snd (cleanup (run [] ?init))))) \<and>
    length (content (host (snd (onAudioData ?g (snd (cleanup (run [] ?init))))))) = 44 \<and>
    totalDataBytes (snd (onAudioData ?g (snd (cleanup (run [] ?init))))) = 2"
    unfolding l(2) .
  from first second show ?thesis by simp
qed

text \<open>
  The claim as stated fails on an ingest after the finalize of a recording: a
  frame of four bytes is ingested and finalized; a further frame of two bytes
  is then accepted without any error thrown to the caller, in the same turn of
  the event loop and after the file has been closed, and each time the counter
  goes from 4 to 6.
\<close>

theorem ingest_after_finalize_returns:
  "fst (onAudioData (frame_of 48000 16 2 [5, 6])
      (snd (cleanup (run [Ingest (frame_of 48000 16 2 [1, 2, 3, 4])]
         (constructor ''/tmp/speaker_audio.wav'' 3 None))))) = None \<and>
   totalDataBytes (snd (cleanup (run [Ingest (frame_of 48000 16 2 [1, 2, 3, 4])]
         (constructor ''/tmp/speaker_audio.wav'' 3 None)))) = 4 \<and>
   totalDataBytes (snd (onAudioData (frame_of 48000 16 2 [5, 6])
      (snd (cleanup (run [Ingest (frame_of 48000 16 2 [1, 2, 3, 4])]
         (constructor ''/tmp/speaker_audio.wav'' 3 None)))))) = 6 \<and>
   fst (onAudioData (frame_of 48000 16 2 [5, 6])
      (settle (snd (cleanup (run [Ingest (frame_of 48000 16 2 [1, 2, 3, 4])]
         (constructor ''/tmp/speaker_audio.wav'' 3 None)))))) = None \<and>
   totalDataBytes (snd (onAudioData (frame_of 48000 16 2 [5, 6])
      (settle (snd (cleanup (run [Ingest (frame_of 48000 16 2 [1, 2, 3, 4])]
         (constructor ''/tmp/speaker_audio.wav'' 3 None))))))) = 6"
proof -
  let ?f = "frame_of 48000 16 2 [1, 2, 3, 4]"
  let ?g = "frame_of 48000 16 2 [5, 6]"
  let ?init = "constructor ''/tmp/speaker_audio.wav'' 3 None"
  let ?w = "run [Ingest ?f] ?init"
  let ?u = "snd (cleanup ?w)"
  have h: "headerWritten (snd (onAudioData ?f ?init))"
    by (rule first_ingest_header_written) (simp add: header_fits_def frame_of_def)
  from first_ingest [OF h] obtain header where
    r: "recording header (payload ?f) ?w" by auto
  have l: "length (payload ?f) = 4" "length (payload ?g) = 2"
    by (simp_all add: payload_def Buffer_from_def frame_of_def)
  have one: "fst (cleanup ?w) = None"
    using cleanup_recording [OF r] l by simp
  have a: "headerWritten ?w" "totalDataBytes ?w = 4"
    using r l by (simp_all add: recording_def)
  have cb: "onAudioCallback ?w = None" by (rule callback_run)
  have c: "consistent ?u" by (rule consistent_cleanup [OF consistent_reachable])
  note q = cleanup_returned(1) [OF one]
  note s = settle_closes(1) [OF c q]
  have hu: "headerWritten ?u" "headerWritten (settle ?u)"
    using a by (simp_all add: cleanup_keeps_fields settle_keeps_fields)
  have sv: "status (outStream (settle ?u)) \<noteq> Writable" using s by simp
  from onAudioData_ended(1,2) [OF hu(1) q, of ?g] onAudioData_ended(1,2) [OF hu(2) sv, of ?g]
    a l cb
  show ?thesis by (simp add: cleanup_keeps_fields settle_keeps_fields)
qed

section \<open>The forwarding callback\<close>

lemma wavHeader_fields:
  "wavSampleRate v = wavSampleRate w \<Longrightarrow> wavBitsPerSample v = wavBitsPerSample w \<Longrightarrow>
   wavNumChannels v = wavNumChannels w \<Longrightarrow> wavHeader v = wavHeader w"
  by (simp add: wavHeader_def)

lemma writeWavHeaderPlaceholder_without_callback:
  "writeWavHeaderPlaceholder (w\<lparr>onAudioCallback := c\<rparr>) =
     (fst (writeWavHeaderPlaceholder w), (snd (writeWavHeaderPlaceholder w))\<lparr>onAudioCallback := c\<rparr>)"
proof -
  have h: "wavHeader (w\<lparr>onAudioCallback := c\<rparr>) = wavHeader w"
    by (rule wavHeader_fields) simp_all
  show ?thesis
    unfolding writeWavHeaderPlaceholder_def h
    by (simp split: sum.splits)
qed

lemma onAudioData_without_callback:
  "snd (onAudioData f (w\<lparr>onAudioCallback := c\<rparr>)) = (snd (onAudioData f w))\<lparr>onAudioCallback := c\<rparr>"
proof (cases "headerWritten w")
  case True
  then show ?thesis by (simp add: onAudioData_after_header(1))
next
  case False
  let ?w1 = "w\<lparr>wavSampleRate := sampleRate f, wavBitsPerSample := bitsPerSample f,
              wavNumChannels := channelCount f\<rparr>"
  have n: "\<not> headerWritten (w\<lparr>onAudioCallback := c\<rparr>)" using False by simp
  have sw: "w\<lparr>onAudioCallback := c, wavSampleRate := sampleRate f,
      wavBitsPerSample := bitsPerSample f, wavNumChannels := channelCount f\<rparr> =
      ?w1\<lparr>onAudioCallback := c\<rparr>" by simp
  obtain r t where rt: "writeWavHeaderPlaceholder ?w1 = (r, t)"
    by (cases "writeWavHeaderPlaceholder ?w1")
  then have rt': "writeWavHeaderPlaceholder (w\<lparr>onAudioCallback := c, wavSampleRate := sampleRate f,
      wavBitsPerSample := bitsPerSample f, wavNumChannels := channelCount f\<rparr>) =
      (r, t\<lparr>onAudioCallback := c\<rparr>)"
    unfolding sw writeWavHeaderPlaceholder_without_callback by simp
  show ?thesis
  proof (cases r)
    case (Some e)
    from onAudioData_first_fail [OF False rt [unfolded Some]]
      onAudioData_first_fail [OF n rt' [unfolded Some]]
    show ?thesis by simp
  next
    case None
    have hw: "headerWritten (t\<lparr>headerWritten := True\<rparr>)"
      "headerWritten (t\<lparr>onAudioCallback := c, headerWritten := True\<rparr>)" by simp_all
    show ?thesis
      unfolding onAudioData_first_ok [OF False rt [unfolded None]]
        onAudioData_first_ok [OF n rt' [unfolded None]]
        onAudioData_after_header(1) [OF hw(1)] onAudioData_after_header(1) [OF hw(2)]
      by simp
  qed
qed

lemma onAudioData_result:
  "fst (onAudioData f (w\<lparr>onAudioCallback := None\<rparr>)) = None \<Longrightarrow>
   fst (onAudioData f w) =
     (case onAudioCallback w of None \<Rightarrow> None | Some c \<Rightarrow> c (samples f) (userId f))"
proof (cases "headerWritten w")
  case True
  then show ?thesis by (simp add: onAudioData_after_header(2))
next
  case False
  assume a: "fst (onAudioData f (w\<lparr>onAudioCallback := None\<rparr>)) = None"
  let ?w1 = "w\<lparr>wavSampleRate := sampleRate f, wavBitsPerSample := bitsPerSample f,
              wavNumChannels := channelCount f\<rparr>"
  have n: "\<not> headerWritten (w\<lparr>onAudioCallback := None\<rparr>)" using False by simp
  have sw: "w\<lparr>onAudioCallback := None, wavSampleRate := sampleRate f,
      wavBitsPerSample := bitsPerSample f, wavNumChannels := channelCount f\<rparr> =
      ?w1\<lparr>onAudioCallback := None\<rparr>" by simp
  obtain r t where rt: "writeWavHeaderPlaceholder ?w1 = (r, t)"
    by (cases "writeWavHeaderPlaceholder ?w1")
  then have rt': "writeWavHeaderPlaceholder (w\<lparr>onAudioCallback := None, wavSampleRate := sampleRate f,
      wavBitsPerSample := bitsPerSample f, wavNumChannels := channelCount f\<rparr>) =
      (r, t\<lparr>onAudioCallback := None\<rparr>)"
    unfolding sw writeWavHeaderPlaceholder_without_callback by simp
  show ?thesis
  proof (cases r)
    case (Some e)
    from onAudioData_first_fail [OF n rt' [unfolded Some]] a show ?thesis by simp
  next
    case None
    from writeWavHeaderPlaceholder_None [OF rt [unfolded None]]
    have c: "onAudioCallback t = onAudioCallback w" by auto
    have hw: "headerWritten (t\<lparr>headerWritten := True\<rparr>)" by simp
    show ?thesis
      unfolding onAudioData_first_ok [OF False rt [unfolded None]]
        onAudioData_after_header(2) [OF hw]
      by (simp add: c)
  qed
qed

lemma onAudioData_counts:
  "fst (onAudioData f (w\<lparr>onAudioCallback := None\<rparr>)) = None \<Longrightarrow>
   totalDataBytes (snd (onAudioData f w)) = totalDataBytes w + length (payload f)"
proof (cases "headerWritten w")
  case True
  then show ?thesis by (simp add: onAudioData_after_header(1))
next
  case False
  assume a: "fst (onAudioData f (w\<lparr>onAudioCallback := None\<rparr>)) = None"
  let ?w1 = "w\<lparr>wavSampleRate := sampleRate f, wavBitsPerSample := bitsPerSample f,
              wavNumChannels := channelCount f\<rparr>"
  have n: "\<not> headerWritten (w\<lparr>onAudioCallback := None\<rparr>)" using False by simp
  have sw: "w\<lparr>onAudioCallback := None, wavSampleRate := sampleRate f,
      wavBitsPerSample := bitsPerSample f, wavNumChannels := channelCount f\<rparr> =
      ?w1\<lparr>onAudioCallback := None\<rparr>" by simp
  obtain r t where rt: "writeWavHeaderPlaceholder ?w1 = (r, t)"
    by (cases "writeWavHeaderPlaceholder ?w1")
  then have rt': "writeWavHeaderPlaceholder (w\<lparr>onAudioCallback := None, wavSampleRate := sampleRate f,
      wavBitsPerSample := bitsPerSample f, wavNumChannels := channelCount f\<rparr>) =
      (r, t\<lparr>onAudioCallback := None\<rparr>)"
    unfolding sw writeWavHeaderPlaceholder_without_callback by simp
  show ?thesis
  proof (cases r)
    case (Some e)
    from onAudioData_first_fail [OF n rt' [unfolded Some]] a show ?thesis by simp
  next
    case None
    from writeWavHeaderPlaceholder_None [OF rt [unfolded None]]
    have c: "totalDataBytes t = totalDataBytes w" by auto
    have hw: "headerWritten (t\<lparr>headerWritten := True\<rparr>)" by simp
    show ?thesis
      unfolding onAudioData_first_ok [OF False rt [unfolded None]]
        onAudioData_after_header(1) [OF hw]
      by (simp add: c)
  qed
qed

text \<open>
  Claim C4 (amended). When the forwarding callback throws, the payload has
  already been handed to the stream, which writes it in a later turn, and \<open>totalDataBytes\<close> has already grown by the
  payload's length: the state after the call is that of the same call without a
  callback. The exception is not contained: \<^verbatim>\<open>onAudioData\<close> throws it to its
  caller. The third assumption says that the call reaches the callback, that is
  that its own header write does not throw.
\<close>

theorem callback_exception_propagates:
  assumes "onAudioCallback w = Some c"
    and "c (samples f) (userId f) = Some e"
    and "fst (onAudioData f (w\<lparr>onAudioCallback := None\<rparr>)) = None"
  shows "fst (onAudioData f w) = Some e \<and>
         snd (onAudioData f w) =
           (snd (onAudioData f (w\<lparr>onAudioCallback := None\<rparr>)))\<lparr>onAudioCallback := Some c\<rparr> \<and>
         totalDataBytes (snd (onAudioData f w)) = totalDataBytes w + length (payload f) \<and>
         (headerWritten w \<longrightarrow>
            outStream (snd (onAudioData f w)) = stream_write (payload f) (outStream w) \<and>
            host (snd (onAudioData f w)) = host w)"
proof -
  have "w = (w\<lparr>onAudioCallback := None\<rparr>)\<lparr>onAudioCallback := Some c\<rparr>"
    using assms(1) by simp
  then have "snd (onAudioData f w) =
      snd (onAudioData f ((w\<lparr>onAudioCallback := None\<rparr>)\<lparr>onAudioCallback := Some c\<rparr>))"
    by simp
  then have s: "snd (onAudioData f w) =
           (snd (onAudioData f (w\<lparr>onAudioCallback := None\<rparr>)))\<lparr>onAudioCallback := Some c\<rparr>"
    unfolding onAudioData_without_callback .
  have r: "fst (onAudioData f w) = Some e"
    using onAudioData_result [OF assms(3)] assms(1,2) by simp
  have n: "totalDataBytes (snd (onAudioData f w)) = totalDataBytes w + length (payload f)"
    by (rule onAudioData_counts [OF assms(3)])
  have "headerWritten w \<Longrightarrow>
     outStream (snd (onAudioData f w)) = stream_write (payload f) (outStream w) \<and>
     host (snd (onAudioData f w)) = host w"
    by (simp add: onAudioData_after_header(1))
  with s r n show ?thesis by blast
qed

lemma first_ingest_result:
  assumes "header_fits ((constructor p d cb)\<lparr>wavSampleRate := sampleRate f,
              wavBitsPerSample := bitsPerSample f, wavNumChannels := channelCount f\<rparr>)"
  shows "fst (onAudioData f (constructor p d cb)) =
    (case cb of None \<Rightarrow> None | Some c \<Rightarrow> c (samples f) (userId f))"
proof -
  let ?init = "constructor p d cb"
  let ?w1 = "?init\<lparr>wavSampleRate := sampleRate f, wavBitsPerSample := bitsPerSample f,
              wavNumChannels := channelCount f\<rparr>"
  have n: "\<not> headerWritten ?init" by (simp add: constructor_def)
  from wavHeader_fits [OF assms] obtain header where h: "wavHeader ?w1 = Inr header" by blast
  have "writeWavHeaderPlaceholder ?w1 =
    (None, ?w1\<lparr>host := (host ?w1)\<lparr>content := store_at header 0 (content (host ?w1))\<rparr>\<rparr>)"
    by (rule writeWavHeaderPlaceholder_ok [OF h]) (simp_all add: constructor_def fs_openSync_def)
  from onAudioData_first_ok [OF n this] show ?thesis
    by (simp add: onAudioData_after_header(2) constructor_def)
qed

theorem callback_exception_propagates_witness:
  "fst (onAudioData (frame_of 48000 16 2 [1, 2])
      (constructor ''/tmp/speaker_audio.wav'' 3 (Some throwing_callback))) =
     Some (Thrown ''forwarding failed'') \<and>
   totalDataBytes (snd (onAudioData (frame_of 48000 16 2 [1, 2])
      (constructor ''/tmp/speaker_audio.wav'' 3 (Some throwing_callback)))) = 2"
proof -
  let ?f = "frame_of 48000 16 2 [1, 2]"
  let ?init = "constructor ''/tmp/speaker_audio.wav'' 3 (Some throwing_callback)"
  have i: "?init\<lparr>onAudioCallback := None\<rparr> = constructor ''/tmp/speaker_audio.wav'' 3 None"
    by (simp add: constructor_def)
  have a: "onAudioCallback ?init = Some throwing_callback" by (simp add: constructor_def)
  have b: "throwing_callback (samples ?f) (userId ?f) = Some (Thrown ''forwarding failed'')"
    by (simp add: throwing_callback_def)
  have c: "fst (onAudioData ?f (?init\<lparr>onAudioCallback := None\<rparr>)) = None"
    unfolding i
    using first_ingest_result [where p = "''/tmp/speaker_audio.wav''" and d = 3 and cb = None
        and f = ?f]
    by (simp add: header_fits_def frame_of_def)
  have l: "length (payload ?f) = 2" by (simp add: payload_def Buffer_from_def frame_of_def)
  from callback_exception_propagates [OF a b c]
  have "fst (onAudioData ?f ?init) = Some (Thrown ''forwarding failed'')"
    and "totalDataBytes (snd (onAudioData ?f ?init)) = totalDataBytes ?init + length (payload ?f)"
    by blast+
  moreover have "totalDataBytes ?init = 0" by (simp add: constructor_def)
  ultimately show ?thesis using l by simp
qed

text \<open>
  The claim as stated fails on any callback that throws: the exception of the
  callback is what the ingest call throws.
\<close>

theorem callback_exception_reaches_caller:
  "fst (onAudioData (frame_of 16000 16 1 [7, 8, 9, 10])
      (constructor ''/tmp/speaker_audio.wav'' 3 (Some throwing_callback))) =
     Some (Thrown ''forwarding failed'')"
  using first_ingest_result [where p = "''/tmp/speaker_audio.wav''" and d = 3
      and cb = "Some throwing_callback" and f = "frame_of 16000 16 1 [7, 8, 9, 10]"]
  by (simp add: header_fits_def frame_of_def throwing_callback_def)

section \<open>The format fields\<close>

lemma onAudioData_latches:
  assumes "\<not> headerWritten w" "headerWritten (snd (onAudioData f w))"
  shows "wavSampleRate (snd (onAudioData f w)) = sampleRate f"
    and "wavBitsPerSample (snd (onAudioData f w)) = bitsPerSample f"
    and "wavNumChannels (snd (onAudioData f w)) = channelCount f"
proof -
  let ?w1 = "w\<lparr>wavSampleRate := sampleRate f, wavBitsPerSample := bitsPerSample f,
              wavNumChannels := channelCount f\<rparr>"
  obtain r t where rt: "writeWavHeaderPlaceholder ?w1 = (r, t)"
    by (cases "writeWavHeaderPlaceholder ?w1")
  have "wavSampleRate (snd (onAudioData f w)) = sampleRate f \<and>
    wavBitsPerSample (snd (onAudioData f w)) = bitsPerSample f \<and>
    wavNumChannels (snd (onAudioData f w)) = channelCount f"
  proof (cases r)
    case (Some e)
    with rt have "onAudioData f w = (Some e, t)" and "t = ?w1"
      using onAudioData_first_fail [OF assms(1)] writeWavHeaderPlaceholder_Some by blast+
    then show ?thesis by simp
  next
    case None
    from writeWavHeaderPlaceholder_None [OF rt [unfolded None]] obtain header where
      t: "t = ?w1\<lparr>host := (host ?w1)\<lparr>content := store_at header 0 (content (host ?w1))\<rparr>\<rparr>"
      by blast
    show ?thesis
      unfolding onAudioData_first_ok [OF assms(1) rt [unfolded None]]
      by (simp add: onAudioData_after_header(1) t)
  qed
  then show "wavSampleRate (snd (onAudioData f w)) = sampleRate f"
    and "wavBitsPerSample (snd (onAudioData f w)) = bitsPerSample f"
    and "wavNumChannels (snd (onAudioData f w)) = channelCount f"
    by simp_all
qed

lemma step_keeps_format:
  assumes "headerWritten w"
  shows "headerWritten (snd (step e w)) \<and>
    wavSampleRate (snd (step e w)) = wavSampleRate w \<and>
    wavBitsPerSample (snd (step e w)) = wavBitsPerSample w \<and>
    wavNumChannels (snd (step e w)) = wavNumChannels w"
  using assms
  by (cases e) (simp_all add: onAudioData_after_header(1) cleanup_keeps_fields turn_keeps_fields)

lemma run_keeps_format:
  "headerWritten w \<Longrightarrow>
   headerWritten (run evs w) \<and>
    wavSampleRate (run evs w) = wavSampleRate w \<and>
    wavBitsPerSample (run evs w) = wavBitsPerSample w \<and>
    wavNumChannels (run evs w) = wavNumChannels w"
proof (induction evs arbitrary: w)
  case Nil
  then show ?case by simp
next
  case (Cons e evs)
  from step_keeps_format [OF Cons.prems, of e] Cons.IH [of "snd (step e w)"]
  show ?case by simp
qed

text \<open>
  Claim C8 (amended). The call of \<^verbatim>\<open>onAudioData\<close> that turns \<open>headerWritten\<close>
  from false to true stores its frame's format, and whatever happens afterwards
  (frames of any format, finalize calls, turns of the event loop, failures of
  the host) leaves
  \<open>headerWritten\<close> true and the three fields at those values. So in every
  state with \<open>headerWritten\<close> the fields are those of the frame whose header
  was written. The converse is not claimed.
\<close>

theorem format_latched:
  assumes "\<not> headerWritten w" and "headerWritten (snd (onAudioData f w))"
  shows "headerWritten (run evs (snd (onAudioData f w))) \<and>
         wavSampleRate (run evs (snd (onAudioData f w))) = sampleRate f \<and>
         wavBitsPerSample (run evs (snd (onAudioData f w))) = bitsPerSample f \<and>
         wavNumChannels (run evs (snd (onAudioData f w))) = channelCount f"
  using run_keeps_format [OF assms(2), of evs] onAudioData_latches [OF assms]
  by simp

theorem format_latched_witness:
  "headerWritten (run [Ingest (frame_of 16000 8 1 [5, 6]), Finalize]
      (snd (onAudioData (frame_of 48000 16 2 [1, 2, 3, 4])
         (constructor ''/tmp/speaker_audio.wav'' 3 None)))) \<and>
   wavSampleRate (run [Ingest (frame_of 16000 8 1 [5, 6]), Finalize]
      (snd (onAudioData (frame_of 48000 16 2 [1, 2, 3, 4])
         (constructor ''/tmp/speaker_audio.wav'' 3 None)))) = 48000 \<and>
   wavBitsPerSample (run [Ingest (frame_of 16000 8 1 [5, 6]), Finalize]
      (snd (onAudioData (frame_of 48000 16 2 [1, 2, 3, 4])
         (constructor ''/tmp/speaker_audio.wav'' 3 None)))) = 16 \<and>
   wavNumChannels (run [Ingest (frame_of 16000 8 1 [5, 6]), Finalize]
      (snd (onAudioData (frame_of 48000 16 2 [1, 2, 3, 4])
         (constructor ''/tmp/speaker_audio.wav'' 3 None)))) = 2"
proof -
  let ?f = "frame_of 48000 16 2 [1, 2, 3, 4]"
  let ?init = "constructor ''/tmp/speaker_audio.wav'' 3 None"
  have n: "\<not> headerWritten ?init" by (simp add: constructor_def)
  have h: "headerWritten (snd (onAudioData ?f ?init))"
    by (rule first_ingest_header_written) (simp add: header_fits_def frame_of_def)
  have "sampleRate ?f = 48000" "bitsPerSample ?f = 16" "channelCount ?f = 2"
    by (simp_all add: frame_of_def)
  with format_latched [OF n h, of "[Ingest (frame_of 16000 8 1 [5, 6]), Finalize]"]
  show ?thesis by (simp only:) 
qed

lemma writeWavHeaderPlaceholder_failing:
  assumes "header_fits w" "fd_open (host w)" "fileDescriptor w = fd (host w)" "failing (host w)"
  shows "writeWavHeaderPlaceholder w = (Some EIO, w)"
proof -
  from wavHeader_fits [OF assms(1)] obtain header where "wavHeader w = Inr header" by blast
  then show ?thesis
    using assms(2-4) by (simp add: writeWavHeaderPlaceholder_def fs_writeSync_def)
qed

lemma onAudioData_header_written:
  assumes "\<not> headerWritten w"
    and "header_fits (w\<lparr>wavSampleRate := sampleRate f, wavBitsPerSample := bitsPerSample f,
              wavNumChannels := channelCount f\<rparr>)"
    and "fd_open (host w)" "fileDescriptor w = fd (host w)" "\<not> failing (host w)"
  shows "headerWritten (snd (onAudioData f w))"
proof -
  let ?w1 = "w\<lparr>wavSampleRate := sampleRate f, wavBitsPerSample := bitsPerSample f,
              wavNumChannels := channelCount f\<rparr>"
  from wavHeader_fits [OF assms(2)] obtain header where h: "wavHeader ?w1 = Inr header" by blast
  have "writeWavHeaderPlaceholder ?w1 =
    (None, ?w1\<lparr>host := (host ?w1)\<lparr>content := store_at header 0 (content (host ?w1))\<rparr>\<rparr>)"
    by (rule writeWavHeaderPlaceholder_ok [OF h]) (simp_all add: assms)
  from onAudioData_first_ok [OF assms(1) this] show ?thesis
    by (simp add: onAudioData_after_header(1))
qed

text \<open>
  The claim as stated fails when a header write throws. The host refuses
  writes while the first frame (48000 Hz, 16 bits, 2 channels) is ingested:
  \<^verbatim>\<open>fs.writeSync\<close> throws after the three fields were assigned and before the
  flag is set. The fields hold the frame's format with \<open>headerWritten\<close> false,
  and the next frame (16000 Hz), ingested when the host writes again, replaces
  them.
\<close>

theorem format_set_without_header:
  "wavSampleRate (run [HostFailing True, Ingest (frame_of 48000 16 2 [1, 2, 3, 4])]
      (constructor ''/tmp/speaker_audio.wav'' 3 None)) = 48000 \<and>
   wavBitsPerSample (run [HostFailing True, Ingest (frame_of 48000 16 2 [1, 2, 3, 4])]
      (constructor ''/tmp/speaker_audio.wav'' 3 None)) = 16 \<and>
   wavNumChannels (run [HostFailing True, Ingest (frame_of 48000 16 2 [1, 2, 3, 4])]
      (constructor ''/tmp/speaker_audio.wav'' 3 None)) = 2 \<and>
   \<not> headerWritten (run [HostFailing True, Ingest (frame_of 48000 16 2 [1, 2, 3, 4])]
      (constructor ''/tmp/speaker_audio.wav'' 3 None)) \<and>
   wavSampleRate (run [HostFailing True, Ingest (frame_of 48000 16 2 [1, 2, 3, 4]),
                       HostFailing False, Ingest (frame_of 16000 16 1 [5, 6])]
      (constructor ''/tmp/speaker_audio.wav'' 3 None)) = 16000"
proof -
  let ?f = "frame_of 48000 16 2 [1, 2, 3, 4]"
  let ?g = "frame_of 16000 16 1 [5, 6]"
  let ?init = "constructor ''/tmp/speaker_audio.wav'' 3 None"
  let ?a = "?init\<lparr>host := (host ?init)\<lparr>failing := True\<rparr>\<rparr>"
  let ?a1 = "?a\<lparr>wavSampleRate := sampleRate ?f, wavBitsPerSample := bitsPerSample ?f,
              wavNumChannels := channelCount ?f\<rparr>"
  let ?b = "?a1\<lparr>host := (host ?a1)\<lparr>failing := False\<rparr>\<rparr>"
  have na: "\<not> headerWritten ?a" by (simp add: constructor_def)
  have "writeWavHeaderPlaceholder ?a1 = (Some EIO, ?a1)"
    by (rule writeWavHeaderPlaceholder_failing)
      (simp_all add: header_fits_def frame_of_def constructor_def fs_openSync_def)
  from onAudioData_first_fail [OF na this]
  have one: "run [HostFailing True, Ingest ?f] ?init = ?a1" by simp
  have nb: "\<not> headerWritten ?b" by (simp add: constructor_def)
  have "headerWritten (snd (onAudioData ?g ?b))"
    by (rule onAudioData_header_written [OF nb])
      (simp_all add: header_fits_def frame_of_def constructor_def fs_openSync_def)
  from onAudioData_latches(1) [OF nb this]
  have "wavSampleRate (snd (onAudioData ?g ?b)) = 16000" by (simp add: frame_of_def)
  moreover have "run [HostFailing True, Ingest ?f, HostFailing False, Ingest ?g] ?init =
    snd (onAudioData ?g ?b)"
    using one by simp
  ultimately have two: "wavSampleRate
     (run [HostFailing True, Ingest ?f, HostFailing False, Ingest ?g] ?init) = 16000"
    by simp
  have "wavSampleRate ?a1 = 48000" "wavBitsPerSample ?a1 = 16" "wavNumChannels ?a1 = 2"
    "\<not> headerWritten ?a1"
    by (simp_all add: frame_of_def constructor_def)
  with two show ?thesis unfolding one by blast
qed

section \<open>Two instances\<close>










end
